theory Spec2Isabelle
  imports Complex_Main "HOL-Library.Word"
begin

section \<open>JavaScript strings and values\<close>

text \<open>
  A JavaScript string is modelled as a \<^typ>\<open>string\<close>: a list of code units, restricted to
  the code units U+0000 .. U+00FF that \<^typ>\<open>char\<close> can hold. \<open>length\<close> is then the
  \<open>.length\<close> of the source.

  \<open>String.prototype.trim\<close> removes leading and trailing WhiteSpace and LineTerminator
  code points. Those below U+0100 are TAB, LF, VT, FF, CR, SPACE and NBSP.
\<close>

definition is_ws :: "char \<Rightarrow> bool" where
  "is_ws c = (c \<in> set [CHR 0x09, CHR 0x0A, CHR 0x0B, CHR 0x0C, CHR 0x0D, CHR 0x20, CHR 0xA0])"

definition trim :: "string \<Rightarrow> string" where
  "trim s = rev (dropWhile is_ws (rev (dropWhile is_ws s)))"

text \<open>
  \<open>s.split(d)\<close> for a one-character separator: the pieces between the separators, in
  order; the empty string splits into one empty piece.
\<close>

fun split_on :: "char \<Rightarrow> string \<Rightarrow> string list" where
  "split_on d [] = [[]]"
| "split_on d (c # cs) =
     (if c = d then [] # split_on d cs
      else (case split_on d cs of [] \<Rightarrow> [[c]] | x # xs \<Rightarrow> (c # x) # xs))"

text \<open>
  A Number value. \<open>Finite q\<close> carries the mathematical value of a numeric literal; its
  rounding to an IEEE double (and the sign of zero) is not part of the model. NaN is not
  a constructor: the only place the source meets NaN is the result of \<open>Number(...)\<close>,
  modelled as \<open>None\<close>, and it is tested at once with \<open>Number.isNaN\<close>.
\<close>

datatype js_number = Finite rat | PosInfinity | NegInfinity

datatype js_value = JBool bool | JNum js_number | JStr string

subsection \<open>Number(string): the StringNumericLiteral grammar\<close>

definition is_digit :: "char \<Rightarrow> bool" where
  "is_digit c = (c \<in> set ''0123456789'')"

definition is_hex_digit :: "char \<Rightarrow> bool" where
  "is_hex_digit c = (c \<in> set ''0123456789abcdefABCDEF'')"

definition is_octal_digit :: "char \<Rightarrow> bool" where
  "is_octal_digit c = (c \<in> set ''01234567'')"

definition is_binary_digit :: "char \<Rightarrow> bool" where
  "is_binary_digit c = (c \<in> set ''01'')"

definition digit_val :: "char \<Rightarrow> nat" where
  "digit_val c =
     (if is_digit c then of_char c - 48
      else if c \<in> set ''abcdef'' then of_char c - 87
      else of_char c - 55)"

definition digits_value :: "nat \<Rightarrow> string \<Rightarrow> nat" where
  "digits_value b ds = foldl (\<lambda>a c. a * b + digit_val c) 0 ds"

definition radix_literal :: "nat \<Rightarrow> (char \<Rightarrow> bool) \<Rightarrow> string \<Rightarrow> js_number option" where
  "radix_literal b ok ds =
     (if ds \<noteq> [] \<and> list_all ok ds then Some (Finite (of_nat (digits_value b ds))) else None)"

definition DecimalDigits :: "string \<Rightarrow> nat option" where
  "DecimalDigits ds =
     (if ds \<noteq> [] \<and> list_all is_digit ds then Some (digits_value 10 ds) else None)"

definition SignedInteger :: "string \<Rightarrow> int option" where
  "SignedInteger s =
     (case s of
        [] \<Rightarrow> None
      | c # ds \<Rightarrow>
          if c = CHR ''+'' then map_option int (DecimalDigits ds)
          else if c = CHR ''-'' then map_option (\<lambda>n. - int n) (DecimalDigits ds)
          else map_option int (DecimalDigits s))"

text \<open>The optional exponent part: what is left of the literal after its mantissa.\<close>

definition ExponentPart :: "string \<Rightarrow> int option" where
  "ExponentPart s =
     (case s of
        [] \<Rightarrow> Some 0
      | c # r \<Rightarrow> if c = CHR ''e'' \<or> c = CHR ''E'' then SignedInteger r else None)"

definition scale10 :: "nat \<Rightarrow> int \<Rightarrow> rat" where
  "scale10 n k = (if 0 \<le> k then of_nat n * 10 ^ nat k else of_nat n / 10 ^ nat (- k))"

text \<open>
  \<open>Infinity\<close>, \<open>digits . digits? exponent?\<close>, \<open>. digits exponent?\<close> or
  \<open>digits exponent?\<close>.
\<close>

definition StrUnsignedDecimalLiteral :: "string \<Rightarrow> js_number option" where
  "StrUnsignedDecimalLiteral s =
     (if s = ''Infinity'' then Some PosInfinity
      else
        let ip = takeWhile is_digit s;
            r1 = dropWhile is_digit s;
            fp = (case r1 of [] \<Rightarrow> [] | c # t \<Rightarrow> if c = CHR ''.'' then takeWhile is_digit t else []);
            r2 = (case r1 of [] \<Rightarrow> [] | c # t \<Rightarrow> if c = CHR ''.'' then dropWhile is_digit t else r1)
        in if ip = [] \<and> fp = [] then None
           else (case ExponentPart r2 of
                   None \<Rightarrow> None
                 | Some e \<Rightarrow> Some (Finite (scale10 (digits_value 10 (ip @ fp)) (e - int (length fp))))))"

definition negate :: "js_number \<Rightarrow> js_number" where
  "negate n = (case n of Finite q \<Rightarrow> Finite (- q) | PosInfinity \<Rightarrow> NegInfinity | NegInfinity \<Rightarrow> PosInfinity)"

definition StrDecimalLiteral :: "string \<Rightarrow> js_number option" where
  "StrDecimalLiteral s =
     (case s of
        [] \<Rightarrow> None
      | c # r \<Rightarrow>
          if c = CHR ''+'' then StrUnsignedDecimalLiteral r
          else if c = CHR ''-'' then map_option negate (StrUnsignedDecimalLiteral r)
          else StrUnsignedDecimalLiteral s)"

text \<open>A decimal literal, or an unsigned binary, octal or hexadecimal integer literal.\<close>

definition StrNumericLiteral :: "string \<Rightarrow> js_number option" where
  "StrNumericLiteral s =
     (case s of
        c # x # ds \<Rightarrow>
          if c = CHR ''0'' \<and> (x = CHR ''x'' \<or> x = CHR ''X'') then radix_literal 16 is_hex_digit ds
          else if c = CHR ''0'' \<and> (x = CHR ''o'' \<or> x = CHR ''O'') then radix_literal 8 is_octal_digit ds
          else if c = CHR ''0'' \<and> (x = CHR ''b'' \<or> x = CHR ''B'') then radix_literal 2 is_binary_digit ds
          else StrDecimalLiteral s
      | _ \<Rightarrow> StrDecimalLiteral s)"

text \<open>
  \<open>Number(s)\<close> for a string \<open>s\<close>: surrounding white space is ignored, the empty
  literal is 0, and a string that is no numeric literal gives NaN (\<open>None\<close>).
\<close>

definition Number :: "string \<Rightarrow> js_number option" where
  "Number s = (let t = trim s in if t = [] then Some (Finite 0) else StrNumericLiteral t)"

section \<open>Literal coercion\<close>

definition coerceType :: "string \<Rightarrow> js_value" where
  "coerceType v =
     (let trimmed = trim v in
      if trimmed = ''true'' then JBool True
      else if trimmed = ''false'' then JBool False
      else (case Number trimmed of None \<Rightarrow> JStr trimmed | Some n \<Rightarrow> JNum n))"

section \<open>Filter compiler and query descriptor builder\<close>

text \<open>The wire type \<open>FilterOp\<close> of \<open>utils/api\<close>, with the token of each operator.\<close>

datatype FilterOp =
    Op_eq | Op_neq | Op_lt | Op_lte | Op_gt | Op_gte | Op_like
  | Op_in | Op_between | Op_in_range | Op_is_null | Op_is_not_null

fun op_token :: "FilterOp \<Rightarrow> string" where
  "op_token Op_eq = ''eq''"
| "op_token Op_neq = ''neq''"
| "op_token Op_lt = ''lt''"
| "op_token Op_lte = ''lte''"
| "op_token Op_gt = ''gt''"
| "op_token Op_gte = ''gte''"
| "op_token Op_like = ''like''"
| "op_token Op_in = ''in''"
| "op_token Op_between = ''between''"
| "op_token Op_in_range = ''in_range''"
| "op_token Op_is_null = ''is_null''"
| "op_token Op_is_not_null = ''is_not_null''"

definition NO_VALUE_OPS :: "FilterOp set" where
  "NO_VALUE_OPS = {Op_is_null, Op_is_not_null}"

definition ARRAY_VALUE_OPS :: "FilterOp set" where
  "ARRAY_VALUE_OPS = {Op_in, Op_in_range}"

text \<open>A filter row of the interface state: \<open>{ column?: string; op: FilterOp; value?: string }\<close>.\<close>

record FilterRow =
  row_column :: "string option"
  row_op :: FilterOp
  row_value :: "string option"

text \<open>
  A compiled clause \<open>{ column, op, value }\<close>. The value is left out (\<open>None\<close>), one
  coerced literal, or an array of coerced literals.
\<close>

datatype clause_value = Scalar js_value | Array "js_value list"

record FilterClause =
  cl_column :: string
  cl_op :: FilterOp
  cl_value :: "clause_value option"

text \<open>Truthiness of an optional string: \<open>undefined\<close> and \<open>""\<close> are falsy.\<close>

definition truthy :: "string option \<Rightarrow> bool" where
  "truthy s = (case s of None \<Rightarrow> False | Some t \<Rightarrow> t \<noteq> [])"

text \<open>The callback of \<open>filters.map(...)\<close> in \<open>queryBody\<close>; \<open>None\<close> is its \<open>null\<close>.\<close>

definition compileRow :: "FilterRow \<Rightarrow> FilterClause option" where
  "compileRow f =
     (case row_column f of
        None \<Rightarrow> None
      | Some col \<Rightarrow>
          if col = [] then None
          else
            let op = row_op f in
            if op \<in> NO_VALUE_OPS then Some \<lparr>cl_column = col, cl_op = op, cl_value = None\<rparr>
            else
              let raw = (case row_value f of None \<Rightarrow> [] | Some v \<Rightarrow> v) in
              if op = Op_between then
                let parts = filter (\<lambda>s. s \<noteq> []) (map trim (split_on CHR '','' raw)) in
                if length parts \<noteq> 2 then None
                else Some \<lparr>cl_column = col, cl_op = op, cl_value = Some (Array (map coerceType parts))\<rparr>
              else if op \<in> ARRAY_VALUE_OPS then
                let arr = map coerceType
                            (filter (\<lambda>s. length s > 0) (map trim (split_on CHR '','' raw))) in
                if arr = [] then None
                else Some \<lparr>cl_column = col, cl_op = op, cl_value = Some (Array arr)\<rparr>
              else if raw = [] then None
              else Some \<lparr>cl_column = col, cl_op = op, cl_value = Some (Scalar (coerceType raw))\<rparr>)"

datatype Logical = AND | OR

datatype Direction = asc | desc

text \<open>The sort state \<open>{ column?: string; direction }\<close> and the wire's \<open>order_by\<close>.\<close>

record SortState =
  sort_column :: "string option"
  sort_direction :: Direction

record OrderBy =
  ob_column :: string
  ob_direction :: Direction

text \<open>
  \<open>QueryBody\<close>. An optional key whose value is \<open>undefined\<close> is left out of the JSON
  body; both are \<open>None\<close> here. \<open>limit\<close> and \<open>offset\<close> are JavaScript numbers, each
  modelled by the real number the double stands for.
\<close>

record QueryBody =
  filters :: "FilterClause list"
  logical_operator :: Logical
  order_by :: "OrderBy option"
  limit :: real
  offset :: real
  qb_fields :: "string list option"

text \<open>The draft state of the query view (its \<open>useState\<close> cells).\<close>

record QueryState =
  st_fields :: "string list"
  st_filters :: "FilterRow list"
  st_logical :: Logical
  st_orderBy :: SortState
  st_limit :: real
  st_offset :: real

definition queryBody :: "string option \<Rightarrow> QueryState \<Rightarrow> QueryBody option" where
  "queryBody selectedTable st =
     (if \<not> truthy selectedTable then None
      else
        let processed = List.map_filter compileRow (st_filters st) in
        Some \<lparr>filters = processed,
              logical_operator = st_logical st,
              order_by = (case sort_column (st_orderBy st) of
                            None \<Rightarrow> None
                          | Some c \<Rightarrow> if c = [] then None
                                      else Some \<lparr>ob_column = c, ob_direction = sort_direction (st_orderBy st)\<rparr>),
              limit = st_limit st,
              offset = st_offset st,
              qb_fields = (if length (st_fields st) \<noteq> 0 then Some (st_fields st) else None)\<rparr>)"

text \<open>
  The arity classes of the operators, after the specification's table, and the value
  shape each class asks for.
\<close>

datatype arity_class = No_value | Range_pair | Value_list | Scalar_value

fun arity_of :: "FilterOp \<Rightarrow> arity_class" where
  "arity_of Op_is_null = No_value"
| "arity_of Op_is_not_null = No_value"
| "arity_of Op_between = Range_pair"
| "arity_of Op_in = Value_list"
| "arity_of Op_in_range = Value_list"
| "arity_of _ = Scalar_value"

fun has_shape :: "arity_class \<Rightarrow> clause_value option \<Rightarrow> bool" where
  "has_shape No_value v = (v = None)"
| "has_shape Range_pair v = (case v of Some (Array xs) \<Rightarrow> length xs = 2 | _ \<Rightarrow> False)"
| "has_shape Value_list v = (case v of Some (Array xs) \<Rightarrow> xs \<noteq> [] | _ \<Rightarrow> False)"
| "has_shape Scalar_value v = (case v of Some (Scalar x) \<Rightarrow> True | _ \<Rightarrow> False)"

text \<open>The comma-separated tokens of a raw value: trimmed, the empty ones discarded.\<close>

definition tokens :: "string \<Rightarrow> string list" where
  "tokens raw = filter (\<lambda>s. s \<noteq> []) (map trim (split_on CHR '','' raw))"

definition raw_value :: "FilterRow \<Rightarrow> string" where
  "raw_value f = (case row_value f of None \<Rightarrow> [] | Some v \<Rightarrow> v)"

text \<open>Joining pieces with a separator (\<open>pieces.join(d)\<close>), the inverse of \<open>split\<close>.\<close>

fun join :: "char \<Rightarrow> string list \<Rightarrow> string" where
  "join d [] = []"
| "join d [p] = p"
| "join d (p # q # ps) = p @ d # join d (q # ps)"

subsection \<open>The operators offered by the operator selector\<close>

text \<open>\<open>OPS\<close> of the query view with per-operator value inputs.\<close>

definition OPS :: "FilterOp list" where
  "OPS = [Op_eq, Op_neq, Op_lt, Op_lte, Op_gt, Op_gte, Op_like,
          Op_in, Op_between, Op_in_range, Op_is_null, Op_is_not_null]"

text \<open>
  \<open>OPS\<close> of \<open>components/QueryView.tsx\<close>, declared there as a \<open>FilterOp[]\<close>. Its
  elements are kept as tokens, since one of them is no member of \<open>FilterOp\<close>.
\<close>

definition OPS_QueryView :: "string list" where
  "OPS_QueryView = [''eq'', ''neq'', ''lt'', ''lte'', ''gt'', ''gte'', ''contains'']"

subsection \<open>Editing a filter row's operator\<close>

text \<open>
  The \<open>onChange\<close> handler of the operator selector of row \<open>idx\<close>:
  \<open>arr.map((it, i) => i === idx ? { ...it, op, value: undefined } : it)\<close>.
\<close>

definition onChangeOp :: "nat \<Rightarrow> FilterOp \<Rightarrow> FilterRow list \<Rightarrow> FilterRow list" where
  "onChangeOp idx new_op arr =
     map (\<lambda>(i, it). if i = idx then it\<lparr>row_op := new_op, row_value := None\<rparr> else it)
         (zip [0..<length arr] arr)"

subsection \<open>Pagination controls\<close>

definition initial_state :: QueryState where
  "initial_state =
     \<lparr>st_fields = [], st_filters = [], st_logical = AND,
      st_orderBy = \<lparr>sort_column = None, sort_direction = desc\<rparr>,
      st_limit = 100, st_offset = 0\<rparr>"

text \<open>
  Prev, Next, and an edit of the limit input to a text whose \<open>Number(...)\<close> is \<open>n\<close>
  (a number input holds the empty text or a finite floating-point number, so \<open>n\<close> is a
  finite double, integer or not).

  \<open>o + limit\<close> and \<open>o - limit\<close> are double additions: the exact sum or difference,
  rounded to a double. The rounding is the parameter \<open>rnd\<close>; \<open>Math.max\<close> is exact.
\<close>

datatype page_action = Prev | Next | EditLimit real

fun page_step :: "(real \<Rightarrow> real) \<Rightarrow> QueryState \<Rightarrow> page_action \<Rightarrow> QueryState" where
  "page_step rnd st Prev = st\<lparr>st_offset := max 0 (rnd (st_offset st - st_limit st))\<rparr>"
| "page_step rnd st Next = st\<lparr>st_offset := rnd (st_offset st + st_limit st)\<rparr>"
| "page_step rnd st (EditLimit n) = st\<lparr>st_limit := max 1 n\<rparr>"

definition page_run :: "(real \<Rightarrow> real) \<Rightarrow> QueryState \<Rightarrow> page_action list \<Rightarrow> QueryState" where
  "page_run rnd st acts = foldl (page_step rnd) st acts"

text \<open>
  What the rounding of doubles gives: an integer of magnitude at most \<open>2^53\<close> is a
  double and is left as it is, and a non-negative number is rounded to a non-negative
  one (a sum beyond the largest double becomes \<open>Infinity\<close> in the source, which is
  non-negative too; \<open>rnd\<close> then stands for it by some non-negative real). Nothing else
  is assumed of \<open>rnd\<close>, so nothing is claimed of fractional or larger numbers beyond
  their sign.
\<close>

definition double_rounding :: "(real \<Rightarrow> real) \<Rightarrow> bool" where
  "double_rounding rnd =
     ((\<forall>x. x \<in> \<int> \<and> \<bar>x\<bar> \<le> 2 ^ 53 \<longrightarrow> rnd x = x) \<and> (\<forall>x. 0 \<le> x \<longrightarrow> 0 \<le> rnd x))"

text \<open>A sequence of pagination actions that never edits the limit.\<close>

definition moves_only :: "page_action list \<Rightarrow> bool" where
  "moves_only acts = list_all (\<lambda>a. a = Prev \<or> a = Next) acts"

text \<open>\<open>x\<close> is a non-negative multiple of \<open>l\<close>.\<close>

definition multiple_of :: "real \<Rightarrow> real \<Rightarrow> bool" where
  "multiple_of l x = (\<exists>k::nat. x = real k * l)"

section \<open>Streaming export\<close>

type_synonym byte = "8 word"

type_synonym chunk = "byte list"

text \<open>
  What one \<open>reader.read()\<close> settles to: \<open>{ done: false, value }\<close>, \<open>{ done: true }\<close>,
  or a rejection carrying the error's optional message. A stream is the list of the
  results of its successive reads; a read past the end of the list never settles.
\<close>

datatype read_result = Read_value "chunk option" | Read_done | Read_rejects "string option"

text \<open>What \<open>streamData\<close> settles to: the body's reader, or a thrown error.\<close>

datatype stream_request = Stream_ok "read_result list" | Stream_fails "string option"

record download =
  file_name :: string
  mime_type :: string
  content :: "byte list"

text \<open>
  What the user sees of an export, in order: the toast "Export started", the updates of
  that toast with the running line count, the file offered for download, the toast
  "Export complete" with the final count, the toast "Export failed" with the message.
\<close>

datatype ui_event =
    Toast_started
  | Toast_progress nat
  | Download download
  | Toast_complete nat
  | Toast_failed "string option"

text \<open>
  The rough line count of one chunk:
  \<open>new TextDecoder().decode(value).split("\n").filter(Boolean).length\<close>.
  The decoder is the platform's and is a parameter \<open>dec\<close>.
\<close>

definition line_count :: "(chunk \<Rightarrow> string) \<Rightarrow> chunk \<Rightarrow> nat" where
  "line_count dec v = length (filter (\<lambda>s. s \<noteq> []) (split_on CHR 0x0A (dec v)))"

datatype loop_end = Loop_done "chunk list" nat | Loop_throws "string option"

text \<open>
  The \<open>while (true)\<close> loop, with the local variables \<open>chunks\<close> and \<open>lines\<close> and the
  events shown so far. \<open>None\<close>: the loop never ends.
\<close>

fun read_loop ::
  "(chunk \<Rightarrow> string) \<Rightarrow> read_result list \<Rightarrow> chunk list \<Rightarrow> nat \<Rightarrow> ui_event list \<Rightarrow>
   (ui_event list \<times> loop_end) option" where
  "read_loop dec [] chunks lines evs = None"
| "read_loop dec (Read_done # rs) chunks lines evs = Some (evs, Loop_done chunks lines)"
| "read_loop dec (Read_rejects e # rs) chunks lines evs = Some (evs, Loop_throws e)"
| "read_loop dec (Read_value None # rs) chunks lines evs = read_loop dec rs chunks lines evs"
| "read_loop dec (Read_value (Some v) # rs) chunks lines evs =
     read_loop dec rs (chunks @ [v]) (lines + line_count dec v)
       (evs @ [Toast_progress (lines + line_count dec v)])"

text \<open>The decimal digits of a natural number, as a template literal prints it.\<close>

fun decimal :: "nat \<Rightarrow> string" where
  "decimal n =
     (if n < 10 then [''0123456789'' ! n]
      else decimal (n div 10) @ [''0123456789'' ! (n mod 10)])"

declare decimal.simps [simp del]

text \<open>
  \<open>onExport\<close>. \<open>now\<close> is the value of \<open>Date.now()\<close> when the file is named. The result
  is the list of events shown, \<open>None\<close> when the export never ends.
\<close>

definition onExport ::
  "(chunk \<Rightarrow> string) \<Rightarrow> nat \<Rightarrow> string option \<Rightarrow> QueryBody option \<Rightarrow> stream_request \<Rightarrow>
   ui_event list option" where
  "onExport dec now selectedTable qb request =
     (case selectedTable of
        None \<Rightarrow> Some []
      | Some tbl \<Rightarrow>
          if tbl = [] \<or> qb = None then Some []
          else
            (case request of
               Stream_fails e \<Rightarrow> Some [Toast_failed e]
             | Stream_ok reads \<Rightarrow>
                 (case read_loop dec reads [] 0 [Toast_started] of
                    None \<Rightarrow> None
                  | Some (evs, Loop_throws e) \<Rightarrow> Some (evs @ [Toast_failed e])
                  | Some (evs, Loop_done chunks lines) \<Rightarrow>
                      Some (evs @
                        [Download \<lparr>file_name = tbl @ ''-'' @ decimal now @ ''.ndjson'',
                                   mime_type = ''application/x-ndjson'',
                                   content = concat chunks\<rparr>,
                         Toast_complete lines]))))"

text \<open>The chunks a list of read values delivers, and the running totals of a list of counts.\<close>

definition received :: "chunk option list \<Rightarrow> chunk list" where
  "received vs = List.map_filter (\<lambda>v. v) vs"

fun running_totals :: "nat \<Rightarrow> nat list \<Rightarrow> nat list" where
  "running_totals acc [] = []"
| "running_totals acc (c # cs) = (acc + c) # running_totals (acc + c) cs"

text \<open>
  Chunks of newline-terminated records. A record is a non-empty run of ASCII bytes
  with no newline in it; on ASCII bytes a UTF-8 decoder gives back each byte as the code
  unit of the same value.
\<close>

definition byte_char :: "byte \<Rightarrow> char" where
  "byte_char b = char_of (unat b)"

definition ascii_decoder :: "(chunk \<Rightarrow> string) \<Rightarrow> bool" where
  "ascii_decoder dec = (\<forall>v. list_all (\<lambda>b. b < 0x80) v \<longrightarrow> dec v = map byte_char v)"

definition ascii_record :: "chunk \<Rightarrow> bool" where
  "ascii_record r = (r \<noteq> [] \<and> list_all (\<lambda>b. b < 0x80 \<and> b \<noteq> 0x0A) r)"

definition terminated :: "chunk list \<Rightarrow> chunk" where
  "terminated recs = concat (map (\<lambda>r. r @ [0x0A]) recs)"

section \<open>Column width estimation\<close>

text \<open>
  A row is an object or \<open>null\<close>; \<open>rows[i]?.[c]\<close> is \<open>None\<close> when the row or the value
  is \<open>null\<close> or \<open>undefined\<close>. \<open>String(val)\<close> for the other values is the parameter
  \<open>str\<close>.
\<close>

type_synonym 'v row = "(string \<Rightarrow> 'v option) option"

definition cell :: "'v row \<Rightarrow> string \<Rightarrow> 'v option" where
  "cell r c = (case r of None \<Rightarrow> None | Some obj \<Rightarrow> obj c)"

definition cell_len :: "('v \<Rightarrow> string) \<Rightarrow> 'v row \<Rightarrow> string \<Rightarrow> nat" where
  "cell_len str r c = length (case cell r c of None \<Rightarrow> [] | Some val \<Rightarrow> str val)"

definition sampleCount :: "'v row list \<Rightarrow> nat" where
  "sampleCount rows = min 100 (length rows)"

definition charPx :: nat where
  "charPx = 8"

definition min_width :: real where
  "min_width = 140"

definition max_width :: real where
  "max_width = 420"

text \<open>The \<open>for\<close> loop over the sampled rows, from the header's length.\<close>

definition maxLen :: "('v \<Rightarrow> string) \<Rightarrow> 'v row list \<Rightarrow> string \<Rightarrow> nat" where
  "maxLen str rows c =
     foldl (\<lambda>m i. let len = cell_len str (rows ! i) c in if len > m then len else m)
           (length c) [0..<sampleCount rows]"

text \<open>
  \<open>Math.round(Math.min(max, Math.max(min, maxLen * charPx * 0.7)))\<close>. The product
  \<open>maxLen * charPx\<close> is an integer; its multiplication by the double \<open>0.7\<close> is the
  parameter \<open>damp\<close>, a function from that integer to the real number the double stands
  for. \<open>damp_spec\<close> is what double arithmetic gives for an integer \<open>n\<close> below
  \<open>2^53\<close>: the exact product \<open>0.7 * n\<close> up to an error of at most \<open>n / 2^50\<close> (the
  double nearest to 0.7 and the rounding of the product each add a relative error of at
  most \<open>2^-53\<close>).
\<close>

definition column_width :: "(nat \<Rightarrow> real) \<Rightarrow> nat \<Rightarrow> int" where
  "column_width damp len = round (min max_width (max min_width (damp (len * charPx))))"

definition useColumnWidths ::
  "(nat \<Rightarrow> real) \<Rightarrow> ('v \<Rightarrow> string) \<Rightarrow> string list \<Rightarrow> 'v row list \<Rightarrow> int list" where
  "useColumnWidths damp str columns rows =
     map (\<lambda>c. column_width damp (maxLen str rows c)) columns"

definition damp_spec :: "(nat \<Rightarrow> real) \<Rightarrow> bool" where
  "damp_spec damp = (\<forall>n. \<bar>damp n - 7 * real n / 10\<bar> \<le> real n / 2 ^ 50)"

section \<open>Debounced execution\<close>

text \<open>
  Time is counted in milliseconds. The timers of the window that matter to one
  \<open>useDebouncedCallback\<close> are kept with its ref: the timers that are armed (set and
  neither fired nor cleared), each with its id, the time at which it fires and the
  arguments its callback passes to \<open>fn\<close>; the id the next \<open>setTimeout\<close> returns (ids are
  positive); and \<open>ref.current\<close>.
\<close>

type_synonym time = nat

record 'a debouncer =
  armed :: "(nat \<times> time \<times> 'a) list"
  next_id :: nat
  ref_current :: "nat option"

definition fresh :: "'a debouncer" where
  "fresh = \<lparr>armed = [], next_id = 1, ref_current = None\<rparr>"

definition clearTimeout :: "nat \<Rightarrow> 'a debouncer \<Rightarrow> 'a debouncer" where
  "clearTimeout i s = s\<lparr>armed := filter (\<lambda>(j, deadline, args). j \<noteq> i) (armed s)\<rparr>"

text \<open>
  The function the hook returns, called at time \<open>t\<close> with \<open>args\<close>:
  \<open>if (ref.current) clearTimeout(ref.current); ref.current = setTimeout(() => fn(...args), delay)\<close>.
\<close>

definition debounced :: "nat \<Rightarrow> time \<Rightarrow> 'a \<Rightarrow> 'a debouncer \<Rightarrow> 'a debouncer" where
  "debounced delay t args s =
     (let s1 = (case ref_current s of
                  None \<Rightarrow> s
                | Some i \<Rightarrow> if i = 0 then s else clearTimeout i s);
          i = next_id s1
      in s1\<lparr>armed := armed s1 @ [(i, t + delay, args)],
             next_id := Suc i,
             ref_current := Some i\<rparr>)"

text \<open>
  The timers whose time has come at time \<open>t\<close>, as the calls of \<open>fn\<close> they make (the time
  of the call and its arguments), and the state once they have fired.
\<close>

definition due :: "time \<Rightarrow> 'a debouncer \<Rightarrow> (time \<times> 'a) list" where
  "due t s =
     map (\<lambda>(i, deadline, args). (deadline, args))
         (filter (\<lambda>(i, deadline, args). deadline \<le> t) (armed s))"

definition fire :: "time \<Rightarrow> 'a debouncer \<Rightarrow> 'a debouncer" where
  "fire t s = s\<lparr>armed := filter (\<lambda>(i, deadline, args). \<not> deadline \<le> t) (armed s)\<rparr>"

text \<open>
  The calls of \<open>fn\<close> that a list of time-stamped calls of the debounced function leads
  to: before each call the timers due by then fire, and after the last call the timers
  still armed fire in their time.
\<close>

fun debounce_run :: "nat \<Rightarrow> 'a debouncer \<Rightarrow> (time \<times> 'a) list \<Rightarrow> (time \<times> 'a) list" where
  "debounce_run delay s [] = map (\<lambda>(i, deadline, args). (deadline, args)) (armed s)"
| "debounce_run delay s ((t, args) # calls) =
     due t s @ debounce_run delay (debounced delay t args (fire t s)) calls"

text \<open>
  The query view. A descriptor change hands the new \<open>queryBody\<close> to \<open>useQuery\<close> as part
  of its key, and whether \<open>useQuery\<close> then issues a request is the library's rule, the
  parameter \<open>fetches\<close> (of the key before and the key after). Run Query calls
  \<open>debouncedRefetch()\<close>, the debounced \<open>() => refetch()\<close> with a delay of 300; when its
  timer fires, \<open>refetch()\<close> issues a request for the key \<open>useQuery\<close> holds at that time,
  that is for the current descriptor.
  The result is the list of the requests issued: time, origin and descriptor.
\<close>

datatype 'd ui_action = Change 'd | Run

datatype origin = Key_change | Refetch

fun component_run ::
  "('d \<Rightarrow> 'd \<Rightarrow> bool) \<Rightarrow> nat \<Rightarrow> 'd \<Rightarrow> unit debouncer \<Rightarrow> (time \<times> 'd ui_action) list \<Rightarrow>
   (time \<times> origin \<times> 'd) list" where
  "component_run fetches delay cur s [] =
     map (\<lambda>(i, deadline, args). (deadline, Refetch, cur)) (armed s)"
| "component_run fetches delay cur s ((t, Change d) # es) =
     map (\<lambda>(deadline, args). (deadline, Refetch, cur)) (due t s) @
     (if fetches cur d then [(t, Key_change, d)] else []) @
     component_run fetches delay d (fire t s) es"
| "component_run fetches delay cur s ((t, Run) # es) =
     map (\<lambda>(deadline, args). (deadline, Refetch, cur)) (due t s) @
     component_run fetches delay cur (debounced delay t () (fire t s)) es"

text \<open>
  The rule of \<open>useQuery\<close> with its default options: a change of the key to a different
  key starts a fetch for the new key.
\<close>

definition useQuery_fetches :: "'d \<Rightarrow> 'd \<Rightarrow> bool" where
  "useQuery_fetches old new = (new \<noteq> old)"

text \<open>
  What debouncing means, in the specification's words: a call is answered, one delay
  later and with its own arguments, exactly when no other call follows it within the
  delay.
\<close>

fun quiet_calls :: "nat \<Rightarrow> (time \<times> 'a) list \<Rightarrow> (time \<times> 'a) list" where
  "quiet_calls delay [] = []"
| "quiet_calls delay [(t, args)] = [(t + delay, args)]"
| "quiet_calls delay ((t, args) # (t', args') # calls) =
     (if t + delay \<le> t' then [(t + delay, args)] else []) @
     quiet_calls delay ((t', args') # calls)"

text \<open>Times in order, each less than one delay after the one before: one burst.\<close>

fun in_window :: "nat \<Rightarrow> time list \<Rightarrow> bool" where
  "in_window delay [] = True"
| "in_window delay [t] = True"
| "in_window delay (t # t' # ts) = (t \<le> t' \<and> t' < t + delay \<and> in_window delay (t' # ts))"

text \<open>The requests that descriptor changes alone lead to under a rule.\<close>

fun key_change_requests ::
  "('d \<Rightarrow> 'd \<Rightarrow> bool) \<Rightarrow> 'd \<Rightarrow> (time \<times> 'd) list \<Rightarrow> (time \<times> origin \<times> 'd) list" where
  "key_change_requests fetches cur [] = []"
| "key_change_requests fetches cur ((t, d) # cs) =
     (if fetches cur d then [(t, Key_change, d)] else []) @ key_change_requests fetches d cs"

section \<open>Properties of literal coercion\<close>

lemmas number_defs =
  Number_def StrNumericLiteral_def StrDecimalLiteral_def StrUnsignedDecimalLiteral_def
  ExponentPart_def SignedInteger_def DecimalDigits_def radix_literal_def digits_value_def
  digit_val_def is_digit_def is_hex_digit_def is_octal_digit_def is_binary_digit_def
  scale10_def negate_def trim_def is_ws_def

lemma Number_true: "Number ''true'' = None"
  by (simp add: number_defs)

lemma Number_false: "Number ''false'' = None"
  by (simp add: number_defs)

lemma coerceType_true: "coerceType ''true'' = JBool True"
  by (simp add: coerceType_def trim_def is_ws_def)

lemma coerceType_false: "coerceType ''false'' = JBool False"
  by (simp add: coerceType_def trim_def is_ws_def)

lemma coerceType_42: "coerceType ''42'' = JNum (Finite 42)"
  by (simp add: coerceType_def number_defs)

lemma coerceType_42abc: "coerceType ''42abc'' = JStr ''42abc''"
  by (simp add: coerceType_def number_defs)

lemma coerceType_empty: "coerceType [] = JNum (Finite 0)"
  by (simp add: coerceType_def number_defs)

lemma coerceType_blank: "coerceType ''  '' = JNum (Finite 0)"
  by (simp add: coerceType_def number_defs)

lemma coerceType_cases:
  "(coerceType v = JBool True \<longleftrightarrow> trim v = ''true'') \<and>
   (coerceType v = JBool False \<longleftrightarrow> trim v = ''false'') \<and>
   (coerceType v = JNum n \<longleftrightarrow> Number (trim v) = Some n) \<and>
   (coerceType v = JStr s \<longleftrightarrow>
      s = trim v \<and> s \<noteq> ''true'' \<and> s \<noteq> ''false'' \<and> Number s = None)"
  using Number_true Number_false
  by (auto simp: coerceType_def Let_def split: option.splits)

text \<open>
  C1, as the specification states it, fails at the empty token: \<open>Number("")\<close> is 0 and
  not NaN, so the empty string is coerced to the number 0 and not to itself.
\<close>

theorem coerceType_empty_counterexample: "coerceType [] \<noteq> JStr []"
  by (simp add: coerceType_empty)

text \<open>
  C1 (amended). For every text token \<open>v\<close>, \<open>coerceType\<close> returns exactly one of: the
  boolean true, exactly when the trimmed token is the literal \<open>true\<close>; the boolean false,
  exactly when it is the literal \<open>false\<close>; a number \<open>n\<close>, exactly when \<open>Number\<close> of the
  trimmed token is \<open>n\<close> and not NaN; the trimmed token as a string, exactly when it is
  neither literal and its \<open>Number\<close> is NaN. In particular \<open>true\<close> gives true, \<open>false\<close> gives
  false, \<open>42\<close> gives the number 42, \<open>42abc\<close> gives the string \<open>42abc\<close>, and the empty
  string and a token of white space give the number 0.
\<close>

theorem coerceType_contract:
  "(coerceType v = JBool True \<longleftrightarrow> trim v = ''true'') \<and>
   (coerceType v = JBool False \<longleftrightarrow> trim v = ''false'') \<and>
   (coerceType v = JNum n \<longleftrightarrow> Number (trim v) = Some n) \<and>
   (coerceType v = JStr s \<longleftrightarrow>
      s = trim v \<and> s \<noteq> ''true'' \<and> s \<noteq> ''false'' \<and> Number s = None) \<and>
   coerceType ''true'' = JBool True \<and>
   coerceType ''false'' = JBool False \<and>
   coerceType ''42'' = JNum (Finite 42) \<and>
   coerceType ''42abc'' = JStr ''42abc'' \<and>
   coerceType [] = JNum (Finite 0) \<and>
   coerceType ''  '' = JNum (Finite 0)"
  using coerceType_cases[of v n s]
  by (simp only: coerceType_true coerceType_false coerceType_42 coerceType_42abc
      coerceType_empty coerceType_blank simp_thms)

theorem coerceType_contract_witness:
  "coerceType '' 1.5e1 '' = JNum (Finite 15) \<and> coerceType '' True'' = JStr ''True''"
proof -
  have t1: "trim '' 1.5e1 '' = ''1.5e1''" and t2: "trim '' True'' = ''True''"
    by (simp_all add: trim_def is_ws_def)
  have n1: "Number ''1.5e1'' = Some (Finite 15)" and n2: "Number ''True'' = None"
    by (simp_all add: number_defs)
  from coerceType_contract[of "'' 1.5e1 ''" "Finite 15" "[]"] t1 n1
  have "coerceType '' 1.5e1 '' = JNum (Finite 15)"
    by simp
  moreover from coerceType_contract[of "'' True''" "Finite 0" "''True''"] t2 n2
  have "coerceType '' True'' = JStr ''True''"
    by simp
  ultimately show ?thesis
    by simp
qed

section \<open>Properties of the filter compiler\<close>

lemma trim_ends:
  assumes "trim s \<noteq> []"
  shows "\<not> is_ws (hd (trim s))" and "\<not> is_ws (last (trim s))"
proof -
  define a where "a = dropWhile is_ws s"
  define b where "b = trim s"
  have rb: "rev b = dropWhile is_ws (rev a)"
    by (simp add: b_def trim_def a_def)
  have "rev a = takeWhile is_ws (rev a) @ rev b"
    by (simp add: rb)
  then have "rev (rev a) = rev (takeWhile is_ws (rev a) @ rev b)"
    by (rule arg_cong)
  then have a_eq: "a = b @ rev (takeWhile is_ws (rev a))"
    by simp
  from assms have bne: "b \<noteq> []"
    by (simp add: b_def)
  then have hd_eq: "hd a = hd b"
    using a_eq by (metis hd_append2)
  from a_eq bne have "a \<noteq> []"
    by auto
  then have "\<not> is_ws (hd a)"
    unfolding a_def by (rule hd_dropWhile)
  with hd_eq show "\<not> is_ws (hd (trim s))"
    by (simp add: b_def)
  from bne have "rev b \<noteq> []"
    by simp
  then have "dropWhile is_ws (rev a) \<noteq> []"
    unfolding rb .
  then have "\<not> is_ws (hd (dropWhile is_ws (rev a)))"
    by (rule hd_dropWhile)
  then have "\<not> is_ws (hd (rev b))"
    by (simp add: rb)
  with bne show "\<not> is_ws (last (trim s))"
    by (simp add: hd_rev b_def)
qed

lemma dropWhile_self: "xs = [] \<or> \<not> P (hd xs) \<Longrightarrow> dropWhile P xs = xs"
  by (cases xs) auto

lemma trim_idem: "trim (trim s) = trim s"
proof (cases "trim s = []")
  case True
  have "trim [] = []"
    by (simp add: trim_def)
  with True show ?thesis
    by simp
next
  case False
  define b where "b = trim s"
  from False have h: "\<not> is_ws (hd b)" and l: "\<not> is_ws (last b)" and bne: "b \<noteq> []"
    by (simp_all add: trim_ends b_def)
  have 1: "dropWhile is_ws b = b"
    using h by (simp add: dropWhile_self)
  have "\<not> is_ws (hd (rev b))"
    using l bne by (simp add: hd_rev)
  then have 2: "dropWhile is_ws (rev b) = rev b"
    by (simp add: dropWhile_self)
  have "trim b = b"
    unfolding trim_def[of b] by (simp add: 1 2)
  then show ?thesis by (simp add: b_def)
qed

lemma set_trim: "set (trim s) \<subseteq> set s"
proof -
  have "set (trim s) = set (dropWhile is_ws (rev (dropWhile is_ws s)))"
    by (simp add: trim_def)
  also have "\<dots> \<subseteq> set (rev (dropWhile is_ws s))"
    by (rule set_dropWhileD[THEN subsetI])
  also have "\<dots> \<subseteq> set s"
    using set_dropWhileD[of _ is_ws s] by auto
  finally show ?thesis .
qed

lemma split_on_nonempty: "split_on d s \<noteq> []"
  by (induction s) (auto split: list.splits)

lemma split_on_no_sep: "p \<in> set (split_on d s) \<Longrightarrow> d \<notin> set p"
proof (induction s arbitrary: p)
  case Nil
  then show ?case by simp
next
  case (Cons c cs)
  show ?case
  proof (cases "c = d")
    case True
    with Cons show ?thesis by auto
  next
    case False
    obtain x xs where sp: "split_on d cs = x # xs"
      using split_on_nonempty[of d cs] by (cases "split_on d cs") auto
    with False Cons.prems have "p = c # x \<or> p \<in> set xs"
      by auto
    then show ?thesis
    proof
      assume "p = c # x"
      moreover have "d \<notin> set x" using Cons.IH[of x] sp by simp
      ultimately show ?thesis using False by auto
    next
      assume "p \<in> set xs"
      then show ?thesis using Cons.IH[of p] sp by simp
    qed
  qed
qed

lemma join_split_on: "join d (split_on d s) = s"
proof (induction s)
  case Nil
  then show ?case by simp
next
  case (Cons c cs)
  obtain x xs where sp: "split_on d cs = x # xs"
    using split_on_nonempty[of d cs] by (cases "split_on d cs") auto
  show ?case
  proof (cases "c = d")
    case True
    with Cons sp show ?thesis by simp
  next
    case False
    with Cons sp show ?thesis by (cases xs) auto
  qed
qed

lemma tokens_props:
  assumes "t \<in> set (tokens raw)"
  shows "t \<noteq> []" and "trim t = t" and "CHR '','' \<notin> set t"
proof -
  from assms obtain p where p: "p \<in> set (split_on CHR '','' raw)"
    and t: "t = trim p" and ne: "t \<noteq> []"
    by (auto simp: tokens_def)
  show "t \<noteq> []" by (rule ne)
  show "trim t = t" by (simp add: t trim_idem)
  from split_on_no_sep[OF p] set_trim[of p] show "CHR '','' \<notin> set t"
    by (auto simp: t)
qed

lemma compileRow_alt:
  "compileRow f =
     (case row_column f of
        None \<Rightarrow> None
      | Some col \<Rightarrow>
          if col = [] then None
          else if row_op f \<in> NO_VALUE_OPS
            then Some \<lparr>cl_column = col, cl_op = row_op f, cl_value = None\<rparr>
          else if row_op f = Op_between
            then (if length (tokens (raw_value f)) \<noteq> 2 then None
                  else Some \<lparr>cl_column = col, cl_op = row_op f,
                             cl_value = Some (Array (map coerceType (tokens (raw_value f))))\<rparr>)
          else if row_op f \<in> ARRAY_VALUE_OPS
            then (if tokens (raw_value f) = [] then None
                  else Some \<lparr>cl_column = col, cl_op = row_op f,
                             cl_value = Some (Array (map coerceType (tokens (raw_value f))))\<rparr>)
          else if raw_value f = [] then None
          else Some \<lparr>cl_column = col, cl_op = row_op f,
                     cl_value = Some (Scalar (coerceType (raw_value f)))\<rparr>)"
  by (simp add: compileRow_def tokens_def raw_value_def Let_def split: option.splits)

lemma compileRow_no_column: "\<not> truthy (row_column f) \<Longrightarrow> compileRow f = None"
  by (simp add: compileRow_alt truthy_def split: option.splits)

lemma compileRow_no_value:
  "row_column f = Some col \<Longrightarrow> col \<noteq> [] \<Longrightarrow> row_op f \<in> NO_VALUE_OPS \<Longrightarrow>
   compileRow f = Some \<lparr>cl_column = col, cl_op = row_op f, cl_value = None\<rparr>"
  by (simp add: compileRow_alt)

lemma length_two: "length xs = 2 \<longleftrightarrow> (\<exists>a b. xs = [a, b])"
  by (cases xs; cases "tl xs"; cases "tl (tl xs)") auto

lemma compileRow_between:
  assumes "row_column f = Some col" and "col \<noteq> []" and "row_op f = Op_between"
  shows "compileRow f =
     (case tokens (raw_value f) of
        [a, b] \<Rightarrow> Some \<lparr>cl_column = col, cl_op = Op_between,
                        cl_value = Some (Array [coerceType a, coerceType b])\<rparr>
      | _ \<Rightarrow> None)"
proof (cases "length (tokens (raw_value f)) = 2")
  case True
  then obtain a b where "tokens (raw_value f) = [a, b]"
    by (auto simp: length_two)
  with assms show ?thesis
    by (simp add: compileRow_alt NO_VALUE_OPS_def)
next
  case False
  then have "(case tokens (raw_value f) of
        [a, b] \<Rightarrow> Some \<lparr>cl_column = col, cl_op = Op_between,
                        cl_value = Some (Array [coerceType a, coerceType b])\<rparr>
      | _ \<Rightarrow> None) = None"
    by (auto split: list.splits)
  with False assms show ?thesis
    by (simp add: compileRow_alt NO_VALUE_OPS_def)
qed

lemma compileRow_list:
  assumes "row_column f = Some col" and "col \<noteq> []" and "row_op f \<in> ARRAY_VALUE_OPS"
  shows "compileRow f =
     (if tokens (raw_value f) = [] then None
      else Some \<lparr>cl_column = col, cl_op = row_op f,
                 cl_value = Some (Array (map coerceType (tokens (raw_value f))))\<rparr>)"
  using assms
  by (auto simp: compileRow_alt NO_VALUE_OPS_def ARRAY_VALUE_OPS_def)

lemma compileRow_scalar:
  assumes "row_column f = Some col" and "col \<noteq> []" and "arity_of (row_op f) = Scalar_value"
  shows "compileRow f =
     (if raw_value f = [] then None
      else Some \<lparr>cl_column = col, cl_op = row_op f,
                 cl_value = Some (Scalar (coerceType (raw_value f)))\<rparr>)"
  using assms
  by (cases "row_op f")
     (auto simp: compileRow_alt NO_VALUE_OPS_def ARRAY_VALUE_OPS_def)

lemma compileRow_shape:
  assumes "row_column f = Some col" and "col \<noteq> []" and "compileRow f = Some cl"
  shows "cl_column cl = col \<and> cl_op cl = row_op f \<and>
         has_shape (arity_of (row_op f)) (cl_value cl)"
proof (cases "arity_of (row_op f)")
  case No_value
  then have "row_op f \<in> NO_VALUE_OPS"
    by (cases "row_op f") (auto simp: NO_VALUE_OPS_def)
  from compileRow_no_value[OF assms(1,2) this] assms(3) No_value show ?thesis
    by auto
next
  case Range_pair
  then have "row_op f = Op_between"
    by (cases "row_op f") auto
  from compileRow_between[OF assms(1,2) this] assms(3) Range_pair this show ?thesis
    by (auto split: list.splits)
next
  case Value_list
  then have "row_op f \<in> ARRAY_VALUE_OPS"
    by (cases "row_op f") (auto simp: ARRAY_VALUE_OPS_def)
  from compileRow_list[OF assms(1,2) this] assms(3) Value_list show ?thesis
    by (auto split: if_splits)
next
  case Scalar_value
  from compileRow_scalar[OF assms(1,2) this] assms(3) Scalar_value show ?thesis
    by (auto split: if_splits)
qed

lemma tokens_a_b: "tokens ''a, b ,'' = [''a'', ''b'']"
  by (simp add: tokens_def trim_def is_ws_def)

lemma coerceType_a: "coerceType ''a'' = JStr ''a''"
  by (simp add: coerceType_def number_defs)

lemma coerceType_b: "coerceType ''b'' = JStr ''b''"
  by (simp add: coerceType_def number_defs)

text \<open>
  C2. A row with no column selected (\<open>undefined\<close> or the empty option) is dropped,
  whatever its operator. For a row with a column selected: under \<open>is_null\<close> and
  \<open>is_not_null\<close> the clause has no value, whatever the row's draft value is; under
  \<open>between\<close> the row compiles exactly when its raw value has two non-empty trimmed
  comma-separated tokens, to the list of the two, each coerced on its own, and is dropped
  for any other count; under \<open>in\<close> and \<open>in_range\<close> the value is the list of the coerced
  tokens in order, and a row with no token is dropped; and every compiled clause keeps
  the row's column and operator and carries a value of the shape of the operator's
  arity class. Every token is non-empty, trimmed and free of commas, and the input
  \<open>a, b ,\<close> gives the list of the strings \<open>a\<close> and \<open>b\<close>.
\<close>

theorem filter_compiler_value_shape:
  "(\<not> truthy (row_column f) \<longrightarrow> compileRow f = None) \<and>
   (\<forall>col. row_column f = Some col \<and> col \<noteq> [] \<longrightarrow>
      (row_op f \<in> {Op_is_null, Op_is_not_null} \<longrightarrow>
         compileRow f = Some \<lparr>cl_column = col, cl_op = row_op f, cl_value = None\<rparr>) \<and>
      (row_op f = Op_between \<longrightarrow>
         compileRow f =
           (case tokens (raw_value f) of
              [a, b] \<Rightarrow> Some \<lparr>cl_column = col, cl_op = Op_between,
                              cl_value = Some (Array [coerceType a, coerceType b])\<rparr>
            | _ \<Rightarrow> None)) \<and>
      (row_op f \<in> {Op_in, Op_in_range} \<longrightarrow>
         compileRow f =
           (if tokens (raw_value f) = [] then None
            else Some \<lparr>cl_column = col, cl_op = row_op f,
                       cl_value = Some (Array (map coerceType (tokens (raw_value f))))\<rparr>)) \<and>
      (\<forall>cl. compileRow f = Some cl \<longrightarrow>
         cl_column cl = col \<and> cl_op cl = row_op f \<and>
         has_shape (arity_of (row_op f)) (cl_value cl))) \<and>
   (\<forall>t \<in> set (tokens raw). t \<noteq> [] \<and> trim t = t \<and> CHR '','' \<notin> set t) \<and>
   map coerceType (tokens ''a, b ,'') = [JStr ''a'', JStr ''b'']"
proof (intro conjI allI impI ballI)
  assume "\<not> truthy (row_column f)"
  then show "compileRow f = None"
    by (rule compileRow_no_column)
next
  fix col
  assume "row_column f = Some col \<and> col \<noteq> []" and "row_op f \<in> {Op_is_null, Op_is_not_null}"
  then show "compileRow f = Some \<lparr>cl_column = col, cl_op = row_op f, cl_value = None\<rparr>"
    by (simp add: compileRow_no_value NO_VALUE_OPS_def)
next
  fix col
  assume "row_column f = Some col \<and> col \<noteq> []" and "row_op f = Op_between"
  then show "compileRow f =
           (case tokens (raw_value f) of
              [a, b] \<Rightarrow> Some \<lparr>cl_column = col, cl_op = Op_between,
                              cl_value = Some (Array [coerceType a, coerceType b])\<rparr>
            | _ \<Rightarrow> None)"
    by (simp add: compileRow_between)
next
  fix col
  assume "row_column f = Some col \<and> col \<noteq> []" and "row_op f \<in> {Op_in, Op_in_range}"
  then show "compileRow f =
           (if tokens (raw_value f) = [] then None
            else Some \<lparr>cl_column = col, cl_op = row_op f,
                       cl_value = Some (Array (map coerceType (tokens (raw_value f))))\<rparr>)"
    using compileRow_list[of f col] by (simp add: ARRAY_VALUE_OPS_def)
next
  fix col cl
  assume c: "row_column f = Some col \<and> col \<noteq> []" and s: "compileRow f = Some cl"
  from c s have sh: "cl_column cl = col \<and> cl_op cl = row_op f \<and>
      has_shape (arity_of (row_op f)) (cl_value cl)"
    using compileRow_shape[of f col cl] by simp
  from sh show "cl_column cl = col" by simp
  from sh show "cl_op cl = row_op f" by simp
  from sh show "has_shape (arity_of (row_op f)) (cl_value cl)" by simp
next
  fix t
  assume t: "t \<in> set (tokens raw)"
  from tokens_props[OF t] show "t \<noteq> []" and "trim t = t" and "CHR '','' \<notin> set t"
    by simp_all
next
  show "map coerceType (tokens ''a, b ,'') = [JStr ''a'', JStr ''b'']"
    by (simp add: tokens_a_b coerceType_a coerceType_b)
qed

theorem filter_compiler_value_shape_witness:
  "compileRow \<lparr>row_column = None, row_op = Op_is_null, row_value = Some ''x''\<rparr> = None \<and>
   compileRow \<lparr>row_column = Some [], row_op = Op_eq, row_value = Some ''x''\<rparr> = None \<and>
   compileRow \<lparr>row_column = Some ''age'', row_op = Op_is_null, row_value = Some ''stray''\<rparr> =
     Some \<lparr>cl_column = ''age'', cl_op = Op_is_null, cl_value = None\<rparr> \<and>
   compileRow \<lparr>row_column = Some ''age'', row_op = Op_between, row_value = Some ''1,5''\<rparr> =
     Some \<lparr>cl_column = ''age'', cl_op = Op_between,
           cl_value = Some (Array [JNum (Finite 1), JNum (Finite 5)])\<rparr> \<and>
   compileRow \<lparr>row_column = Some ''age'', row_op = Op_between, row_value = Some ''1''\<rparr> = None \<and>
   compileRow \<lparr>row_column = Some ''age'', row_op = Op_between, row_value = Some ''1,2,3''\<rparr> = None \<and>
   compileRow \<lparr>row_column = Some ''tag'', row_op = Op_in, row_value = Some ''a, b ,''\<rparr> =
     Some \<lparr>cl_column = ''tag'', cl_op = Op_in,
           cl_value = Some (Array [JStr ''a'', JStr ''b''])\<rparr> \<and>
   compileRow \<lparr>row_column = Some ''tag'', row_op = Op_in_range, row_value = Some '' , ''\<rparr> = None"
proof -
  have tk: "tokens ''1,5'' = [''1'', ''5'']" "tokens ''1'' = [''1'']"
    "tokens ''1,2,3'' = [''1'', ''2'', ''3'']" "tokens '' , '' = []"
    by (simp_all add: tokens_def trim_def is_ws_def)
  have co: "coerceType ''1'' = JNum (Finite 1)" "coerceType ''5'' = JNum (Finite 5)"
    by (simp_all add: coerceType_def number_defs)
  note ev = tk co tokens_a_b coerceType_a coerceType_b truthy_def raw_value_def
  note th = filter_compiler_value_shape[where raw = "[]", THEN conjunct1]
    filter_compiler_value_shape[where raw = "[]", THEN conjunct2, THEN conjunct1, rule_format]
  have 1: "compileRow \<lparr>row_column = None, row_op = Op_is_null, row_value = Some ''x''\<rparr> = None"
    using th(1)[of "\<lparr>row_column = None, row_op = Op_is_null, row_value = Some ''x''\<rparr>"]
    by (simp add: ev)
  have 2: "compileRow \<lparr>row_column = Some [], row_op = Op_eq, row_value = Some ''x''\<rparr> = None"
    using th(1)[of "\<lparr>row_column = Some [], row_op = Op_eq, row_value = Some ''x''\<rparr>"]
    by (simp add: ev)
  have 3: "compileRow \<lparr>row_column = Some ''age'', row_op = Op_is_null, row_value = Some ''stray''\<rparr> =
     Some \<lparr>cl_column = ''age'', cl_op = Op_is_null, cl_value = None\<rparr>"
    using th(2)[of "\<lparr>row_column = Some ''age'', row_op = Op_is_null, row_value = Some ''stray''\<rparr>" "''age''"]
    by (simp add: ev)
  have 4: "compileRow \<lparr>row_column = Some ''age'', row_op = Op_between, row_value = Some ''1,5''\<rparr> =
     Some \<lparr>cl_column = ''age'', cl_op = Op_between,
           cl_value = Some (Array [JNum (Finite 1), JNum (Finite 5)])\<rparr>"
    using th(2)[of "\<lparr>row_column = Some ''age'', row_op = Op_between, row_value = Some ''1,5''\<rparr>" "''age''"]
    by (simp add: ev)
  have 5: "compileRow \<lparr>row_column = Some ''age'', row_op = Op_between, row_value = Some ''1''\<rparr> = None"
    using th(2)[of "\<lparr>row_column = Some ''age'', row_op = Op_between, row_value = Some ''1''\<rparr>" "''age''"]
    by (simp add: ev)
  have 6: "compileRow \<lparr>row_column = Some ''age'', row_op = Op_between, row_value = Some ''1,2,3''\<rparr> = None"
    using th(2)[of "\<lparr>row_column = Some ''age'', row_op = Op_between, row_value = Some ''1,2,3''\<rparr>" "''age''"]
    by (simp add: ev)
  have 7: "compileRow \<lparr>row_column = Some ''tag'', row_op = Op_in, row_value = Some ''a, b ,''\<rparr> =
     Some \<lparr>cl_column = ''tag'', cl_op = Op_in,
           cl_value = Some (Array [JStr ''a'', JStr ''b''])\<rparr>"
    using th(2)[of "\<lparr>row_column = Some ''tag'', row_op = Op_in, row_value = Some ''a, b ,''\<rparr>" "''tag''"]
    by (simp add: ev)
  have 8: "compileRow \<lparr>row_column = Some ''tag'', row_op = Op_in_range, row_value = Some '' , ''\<rparr> = None"
    using th(2)[of "\<lparr>row_column = Some ''tag'', row_op = Op_in_range, row_value = Some '' , ''\<rparr>" "''tag''"]
    by (simp add: ev)
  from 1 2 3 4 5 6 7 8 show ?thesis
    by (intro conjI)
qed

section \<open>Properties of the query descriptor builder\<close>

text \<open>
  C4. The builder returns \<open>undefined\<close> exactly when no table is selected
  (\<open>undefined\<close> or the empty option). In a descriptor it returns, \<open>order_by\<close> is
  present exactly when a sort column is set, and is then that column with the chosen
  direction; \<open>fields\<close> is present exactly when the projection list is non-empty, is then
  that list, and is never the empty list.
\<close>

theorem queryBody_presence:
  "(queryBody tbl st = None \<longleftrightarrow> \<not> truthy tbl) \<and>
   (\<forall>q. queryBody tbl st = Some q \<longrightarrow>
      (order_by q \<noteq> None \<longleftrightarrow> truthy (sort_column (st_orderBy st))) \<and>
      (\<forall>c. sort_column (st_orderBy st) = Some c \<and> c \<noteq> [] \<longrightarrow>
         order_by q = Some \<lparr>ob_column = c, ob_direction = sort_direction (st_orderBy st)\<rparr>) \<and>
      (qb_fields q \<noteq> None \<longleftrightarrow> st_fields st \<noteq> []) \<and>
      (st_fields st \<noteq> [] \<longrightarrow> qb_fields q = Some (st_fields st)) \<and>
      qb_fields q \<noteq> Some [])"
  by (auto simp: queryBody_def truthy_def Let_def split: option.splits if_splits)

theorem queryBody_presence_witness:
  "queryBody None initial_state = None \<and>
   queryBody (Some []) initial_state = None \<and>
   queryBody (Some ''orders'')
     (initial_state\<lparr>st_filters :=
        [\<lparr>row_column = Some ''status'', row_op = Op_eq, row_value = Some ''shipped''\<rparr>]\<rparr>) =
     Some \<lparr>filters = [\<lparr>cl_column = ''status'', cl_op = Op_eq,
                       cl_value = Some (Scalar (JStr ''shipped''))\<rparr>],
           logical_operator = AND, order_by = None, limit = 100, offset = 0,
           qb_fields = None\<rparr> \<and>
   (\<exists>q. queryBody (Some ''orders'')
           (initial_state\<lparr>st_fields := [''id''],
              st_orderBy := \<lparr>sort_column = Some ''id'', sort_direction = asc\<rparr>\<rparr>) = Some q \<and>
        order_by q = Some \<lparr>ob_column = ''id'', ob_direction = asc\<rparr> \<and>
        qb_fields q = Some [''id''])"
proof -
  have sh: "coerceType ''shipped'' = JStr ''shipped''"
    by (simp add: coerceType_def number_defs)
  have 1: "queryBody None initial_state = None"
    using queryBody_presence[of None initial_state] by (simp add: truthy_def)
  have 2: "queryBody (Some []) initial_state = None"
    using queryBody_presence[of "Some []" initial_state] by (simp add: truthy_def)
  have cr: "compileRow \<lparr>row_column = Some ''status'', row_op = Op_eq, row_value = Some ''shipped''\<rparr> =
      Some \<lparr>cl_column = ''status'', cl_op = Op_eq, cl_value = Some (Scalar (JStr ''shipped''))\<rparr>"
    by (simp add: compileRow_def NO_VALUE_OPS_def ARRAY_VALUE_OPS_def sh)
  have 3: "queryBody (Some ''orders'')
     (initial_state\<lparr>st_filters :=
        [\<lparr>row_column = Some ''status'', row_op = Op_eq, row_value = Some ''shipped''\<rparr>]\<rparr>) =
     Some \<lparr>filters = [\<lparr>cl_column = ''status'', cl_op = Op_eq,
                       cl_value = Some (Scalar (JStr ''shipped''))\<rparr>],
           logical_operator = AND, order_by = None, limit = 100, offset = 0,
           qb_fields = None\<rparr>"
    by (simp add: queryBody_def initial_state_def truthy_def map_filter_simps cr)
  define st where "st = initial_state\<lparr>st_fields := [''id''],
              st_orderBy := \<lparr>sort_column = Some ''id'', sort_direction = asc\<rparr>\<rparr>"
  have "queryBody (Some ''orders'') st \<noteq> None"
    using queryBody_presence[of "Some ''orders''" st] by (simp add: truthy_def)
  then obtain q where q: "queryBody (Some ''orders'') st = Some q"
    by auto
  have "order_by q = Some \<lparr>ob_column = ''id'', ob_direction = asc\<rparr> \<and> qb_fields q = Some [''id'']"
    using queryBody_presence[of "Some ''orders''" st, THEN conjunct2, rule_format, OF q] 
    by (simp add: st_def)
  with q have 4: "\<exists>q. queryBody (Some ''orders'') st = Some q \<and>
        order_by q = Some \<lparr>ob_column = ''id'', ob_direction = asc\<rparr> \<and>
        qb_fields q = Some [''id'']"
    by blast
  from 1 2 3 4 show ?thesis
    unfolding st_def by (intro conjI)
qed

section \<open>Operators, operator edits and pagination\<close>

lemma OPS_all: "op \<in> set OPS"
  by (cases op) (simp_all add: OPS_def)

lemma contains_no_token: "op_token op \<noteq> ''contains''"
  by (cases op) simp_all

text \<open>
  C6. The wire type \<open>FilterOp\<close> has exactly the twelve tokens eq, neq, lt, lte, gt, gte,
  like, in, between, in_range, is_null and is_not_null, and the operator list \<open>OPS\<close> of
  the query view with per-operator inputs offers each of them once and nothing else.
  The list \<open>OPS\<close> of \<open>components/QueryView.tsx\<close> does not: it offers \<open>contains\<close>,
  which is no token of the wire type, and it does not offer \<open>like\<close>, \<open>in\<close>, \<open>between\<close>,
  \<open>in_range\<close>, \<open>is_null\<close> and \<open>is_not_null\<close>.
\<close>

theorem operator_token_set:
  "set OPS = UNIV \<and> distinct OPS \<and>
   map op_token OPS =
     [''eq'', ''neq'', ''lt'', ''lte'', ''gt'', ''gte'', ''like'',
      ''in'', ''between'', ''in_range'', ''is_null'', ''is_not_null''] \<and>
   ''contains'' \<in> set OPS_QueryView \<and>
   ''contains'' \<notin> range op_token \<and>
   filter (\<lambda>op. op_token op \<notin> set OPS_QueryView) OPS =
     [Op_like, Op_in, Op_between, Op_in_range, Op_is_null, Op_is_not_null]"
proof (intro conjI)
  show "set OPS = UNIV"
    using OPS_all by auto
  show "distinct OPS"
    by (simp add: OPS_def)
  show "map op_token OPS =
     [''eq'', ''neq'', ''lt'', ''lte'', ''gt'', ''gte'', ''like'',
      ''in'', ''between'', ''in_range'', ''is_null'', ''is_not_null'']"
    by (simp add: OPS_def)
  show "''contains'' \<in> set OPS_QueryView"
    by (simp add: OPS_QueryView_def)
  show "''contains'' \<notin> range op_token"
    using contains_no_token by (auto simp: image_iff) metis
  show "filter (\<lambda>op. op_token op \<notin> set OPS_QueryView) OPS =
     [Op_like, Op_in, Op_between, Op_in_range, Op_is_null, Op_is_not_null]"
    by (simp add: OPS_def OPS_QueryView_def)
qed

text \<open>
  C10. Changing the operator of the filter row at index \<open>idx\<close> leaves the number of
  rows unchanged; the row at \<open>idx\<close> gets the new operator and no draft value
  (\<open>undefined\<close>) and keeps its column; every other row is unchanged.
\<close>

theorem onChangeOp_resets_value:
  "length (onChangeOp idx new_op arr) = length arr \<and>
   (\<forall>i < length arr.
      (i = idx \<longrightarrow>
         row_op (onChangeOp idx new_op arr ! i) = new_op \<and>
         row_value (onChangeOp idx new_op arr ! i) = None \<and>
         row_column (onChangeOp idx new_op arr ! i) = row_column (arr ! i)) \<and>
      (i \<noteq> idx \<longrightarrow> onChangeOp idx new_op arr ! i = arr ! i))"
  by (simp add: onChangeOp_def)

theorem onChangeOp_resets_value_witness:
  "length (onChangeOp 1 Op_between
     [\<lparr>row_column = Some ''status'', row_op = Op_eq, row_value = Some ''shipped''\<rparr>,
      \<lparr>row_column = Some ''age'', row_op = Op_eq, row_value = Some ''5''\<rparr>]) = 2 \<and>
   onChangeOp 1 Op_between
     [\<lparr>row_column = Some ''status'', row_op = Op_eq, row_value = Some ''shipped''\<rparr>,
      \<lparr>row_column = Some ''age'', row_op = Op_eq, row_value = Some ''5''\<rparr>] ! 0 =
     \<lparr>row_column = Some ''status'', row_op = Op_eq, row_value = Some ''shipped''\<rparr> \<and>
   row_op (onChangeOp 1 Op_between
     [\<lparr>row_column = Some ''status'', row_op = Op_eq, row_value = Some ''shipped''\<rparr>,
      \<lparr>row_column = Some ''age'', row_op = Op_eq, row_value = Some ''5''\<rparr>] ! 1) = Op_between \<and>
   row_value (onChangeOp 1 Op_between
     [\<lparr>row_column = Some ''status'', row_op = Op_eq, row_value = Some ''shipped''\<rparr>,
      \<lparr>row_column = Some ''age'', row_op = Op_eq, row_value = Some ''5''\<rparr>] ! 1) = None \<and>
   row_column (onChangeOp 1 Op_between
     [\<lparr>row_column = Some ''status'', row_op = Op_eq, row_value = Some ''shipped''\<rparr>,
      \<lparr>row_column = Some ''age'', row_op = Op_eq, row_value = Some ''5''\<rparr>] ! 1) = Some ''age''"
proof -
  define arr where "arr =
     [\<lparr>row_column = Some ''status'', row_op = Op_eq, row_value = Some ''shipped''\<rparr>,
      \<lparr>row_column = Some ''age'', row_op = Op_eq, row_value = Some ''5''\<rparr>]"
  note th = onChangeOp_resets_value[of 1 Op_between arr]
  have len: "length arr = 2"
    by (simp add: arr_def)
  from th have 0: "length (onChangeOp 1 Op_between arr) = 2"
    by (simp add: len)
  from th[THEN conjunct2, rule_format, of 0] have 1: "onChangeOp 1 Op_between arr ! 0 = arr ! 0"
    by (simp add: len)
  from th[THEN conjunct2, rule_format, of 1]
  have 2: "row_op (onChangeOp 1 Op_between arr ! 1) = Op_between \<and>
      row_value (onChangeOp 1 Op_between arr ! 1) = None \<and>
      row_column (onChangeOp 1 Op_between arr ! 1) = row_column (arr ! 1)"
    by (simp add: len)
  from 0 1 2 show ?thesis
    by (simp add: arr_def)
qed

lemma page_run_Cons: "page_run rnd st (a # acts) = page_run rnd (page_step rnd st a) acts"
  by (simp add: page_run_def)

lemma page_run_Nil: "page_run rnd st [] = st"
  by (simp add: page_run_def)

lemma page_run_bounds:
  assumes "double_rounding rnd"
  shows "1 \<le> st_limit st \<Longrightarrow> 0 \<le> st_offset st \<Longrightarrow>
   1 \<le> st_limit (page_run rnd st acts) \<and> 0 \<le> st_offset (page_run rnd st acts)"
proof (induction acts arbitrary: st)
  case Nil
  then show ?case by (simp add: page_run_Nil)
next
  case (Cons a acts)
  have nn: "0 \<le> rnd (st_offset st + st_limit st)"
    using assms Cons.prems by (simp add: double_rounding_def)
  have "1 \<le> st_limit (page_step rnd st a) \<and> 0 \<le> st_offset (page_step rnd st a)"
    using Cons.prems nn by (cases a) auto
  then show ?case
    using Cons.IH[of "page_step rnd st a"] by (simp add: page_run_Cons)
qed

lemma rnd_nat:
  assumes "double_rounding rnd" and "m \<le> 2 ^ 53"
  shows "rnd (real m) = real m" and "rnd (- real m) = - real m"
proof -
  have "real m \<le> real (2 ^ 53)"
    using assms(2) by (rule of_nat_mono)
  then have b: "\<bar>real m\<bar> \<le> 2 ^ 53" "\<bar>- real m\<bar> \<le> 2 ^ 53"
    by simp_all
  have i: "real m \<in> \<int>" "- real m \<in> \<int>"
    by simp_all
  from assms(1) i(1) b(1) show "rnd (real m) = real m"
    unfolding double_rounding_def by blast
  from assms(1) i(2) b(2) show "rnd (- real m) = - real m"
    unfolding double_rounding_def by blast
qed

lemma page_run_moves:
  assumes "double_rounding rnd"
  shows "moves_only acts \<Longrightarrow> st_limit st = real n \<Longrightarrow> st_offset st = real (k * n) \<Longrightarrow>
   (k + length acts) * n \<le> 2 ^ 53 \<Longrightarrow>
   st_limit (page_run rnd st acts) = real n \<and>
   (\<exists>k'. st_offset (page_run rnd st acts) = real (k' * n))"
proof (induction acts arbitrary: st k)
  case Nil
  then show ?case by (auto simp: page_run_Nil)
next
  case (Cons a acts)
  from Cons.prems(1) have a: "a = Prev \<or> a = Next" and rest: "moves_only acts"
    by (simp_all add: moves_only_def)
  have lim: "st_limit (page_step rnd st a) = real n"
    using a Cons.prems(2) by auto
  have bound: "(Suc k + length acts) * n \<le> 2 ^ 53"
    using Cons.prems(4) by simp
  have "\<exists>k'. k' \<le> Suc k \<and> st_offset (page_step rnd st a) = real (k' * n)"
  proof -
    from a show ?thesis
    proof
      assume nx: "a = Next"
      have "Suc k * n \<le> (Suc k + length acts) * n"
        by simp
      with bound have b: "Suc k * n \<le> 2 ^ 53"
        by linarith
      have e: "real (k * n) + real n = real (Suc k * n)"
        by simp
      have "st_offset (page_step rnd st a) = rnd (st_offset st + st_limit st)"
        using nx by simp
      also have "\<dots> = rnd (real (k * n) + real n)"
        by (simp only: Cons.prems(2,3))
      also have "\<dots> = rnd (real (Suc k * n))"
        by (simp only: e)
      also have "\<dots> = real (Suc k * n)"
        by (rule rnd_nat(1)[OF assms b])
      finally have "st_offset (page_step rnd st a) = real (Suc k * n)" .
      then show ?thesis
        by (intro exI[of _ "Suc k"] conjI le_refl)
    next
      assume p: "a = Prev"
      have o: "st_offset (page_step rnd st a) = max 0 (rnd (real (k * n) - real n))"
        using p by (simp only: page_step.simps Cons.prems(2,3)) simp
      show ?thesis
      proof (cases k)
        case 0
        have "n \<le> (Suc k + length acts) * n"
          by simp
        with bound have b: "n \<le> 2 ^ 53"
          by linarith
        have "real (k * n) - real n = - real n"
          using 0 by simp
        then have "rnd (real (k * n) - real n) = - real n"
          using rnd_nat(2)[OF assms b] by (simp only:)
        with o have "st_offset (page_step rnd st a) = real (0 * n)"
          by simp
        then show ?thesis
          by (intro exI[of _ 0] conjI) simp_all
      next
        case (Suc j)
        have "j * n \<le> (Suc k + length acts) * n"
          by (rule mult_le_mono1) (simp add: Suc)
        with bound have b: "j * n \<le> 2 ^ 53"
          by linarith
        have "real (k * n) - real n = real (j * n)"
          using Suc by (simp add: algebra_simps)
        then have "rnd (real (k * n) - real n) = real (j * n)"
          using rnd_nat(1)[OF assms b] by (simp only:)
        with o have "st_offset (page_step rnd st a) = real (j * n)"
          by simp
        then show ?thesis
          using Suc by (intro exI[of _ j] conjI) simp_all
      qed
    qed
  qed
  then obtain k' where k': "k' \<le> Suc k" and off: "st_offset (page_step rnd st a) = real (k' * n)"
    by blast
  have "(k' + length acts) * n \<le> (Suc k + length acts) * n"
    by (rule mult_le_mono1) (simp add: k')
  with bound have "(k' + length acts) * n \<le> 2 ^ 53"
    by linarith
  from Cons.IH[OF rest lim off this] show ?case
    by (simp add: page_run_Cons)
qed

lemma multiple_of_nat: "multiple_of (real n) (real (k * n))"
  by (auto simp: multiple_of_def)

lemma not_multiple_30_100: "\<not> multiple_of 30 100"
proof
  assume "multiple_of 30 100"
  then obtain k :: nat where "(100::real) = real k * 30"
    by (auto simp: multiple_of_def)
  then have "real (100::nat) = real (k * 30)"
    by simp
  then have "(100::nat) = k * 30"
    by (simp only: of_nat_eq_iff)
  then show False
    by presburger
qed

text \<open>
  C9, as the specification states it, fails: after Next (offset 100) an edit of the
  limit to 30 leaves the offset at 100, which is no multiple of 30, whatever the
  rounding of doubles does elsewhere.
\<close>

theorem pagination_offset_counterexample:
  "\<not> (\<exists>rnd. double_rounding rnd \<and>
        multiple_of (st_limit (page_run rnd initial_state [Next, EditLimit 30]))
                    (st_offset (page_run rnd initial_state [Next, EditLimit 30])))"
proof
  assume "\<exists>rnd. double_rounding rnd \<and>
        multiple_of (st_limit (page_run rnd initial_state [Next, EditLimit 30]))
                    (st_offset (page_run rnd initial_state [Next, EditLimit 30]))"
  then obtain rnd where d: "double_rounding rnd"
    and m: "multiple_of (st_limit (page_run rnd initial_state [Next, EditLimit 30]))
                    (st_offset (page_run rnd initial_state [Next, EditLimit 30]))"
    by blast
  have "rnd (real 100) = real 100"
    by (rule rnd_nat(1)[OF d]) simp
  then have r: "rnd 100 = 100"
    by simp
  have "st_limit (page_run rnd initial_state [Next, EditLimit 30]) = 30"
    and "st_offset (page_run rnd initial_state [Next, EditLimit 30]) = 100"
    by (simp_all add: page_run_def initial_state_def r)
  with m have "multiple_of 30 100"
    by simp
  with not_multiple_30_100 show False
    by contradiction
qed

text \<open>
  C9 (amended). Starting from the initial state (limit 100, offset 0), after every
  sequence of Prev, Next and limit edits the offset is non-negative and the limit is at
  least 1. Prev and Next keep the offset a non-negative multiple of the limit they step
  by, as long as the limit is an integer and the numbers stay integers of at most
  \<open>2^53\<close>, which double arithmetic adds and subtracts exactly: after every sequence of
  \<open>len\<close> steps with no limit edit and \<open>100 * len\<close> at most \<open>2^53\<close> the limit is still
  100 and the offset is a multiple of it; and from every state with an integer limit
  \<open>n\<close> and the offset \<open>k * n\<close>, a sequence of \<open>len\<close> steps with no limit edit and
  \<open>(k + len) * n\<close> at most \<open>2^53\<close> keeps the limit and leaves a multiple of it. An edit
  of the limit does not realign the offset.
\<close>

theorem pagination_offset_invariant:
  assumes "double_rounding rnd"
  shows
    "0 \<le> st_offset (page_run rnd initial_state acts) \<and>
     1 \<le> st_limit (page_run rnd initial_state acts) \<and>
     (moves_only acts \<and> length acts * 100 \<le> 2 ^ 53 \<longrightarrow>
        st_limit (page_run rnd initial_state acts) = 100 \<and>
        multiple_of (st_limit (page_run rnd initial_state acts))
                    (st_offset (page_run rnd initial_state acts))) \<and>
     (moves_only acts \<and> st_limit st = real n \<and> st_offset st = real (k * n) \<and>
      (k + length acts) * n \<le> 2 ^ 53 \<longrightarrow>
        st_limit (page_run rnd st acts) = st_limit st \<and>
        multiple_of (st_limit (page_run rnd st acts)) (st_offset (page_run rnd st acts)))"
proof (intro conjI impI)
  have init: "1 \<le> st_limit initial_state" "0 \<le> st_offset initial_state"
    by (simp_all add: initial_state_def)
  from page_run_bounds[OF assms init, of acts]
  show "0 \<le> st_offset (page_run rnd initial_state acts)"
    and "1 \<le> st_limit (page_run rnd initial_state acts)"
    by simp_all
  {
    assume h: "moves_only acts \<and> length acts * 100 \<le> 2 ^ 53"
    have l: "st_limit initial_state = real 100" and o: "st_offset initial_state = real (0 * 100)"
      by (simp_all add: initial_state_def)
    from h have b: "(0 + length acts) * 100 \<le> 2 ^ 53"
      by simp
    from page_run_moves[OF assms _ l o b] h
    obtain k' where "st_limit (page_run rnd initial_state acts) = real 100"
      and "st_offset (page_run rnd initial_state acts) = real (k' * 100)"
      by blast
    then show "st_limit (page_run rnd initial_state acts) = 100"
      and "multiple_of (st_limit (page_run rnd initial_state acts))
                    (st_offset (page_run rnd initial_state acts))"
      using multiple_of_nat[of 100 k'] by simp_all
  }
  {
    assume h: "moves_only acts \<and> st_limit st = real n \<and> st_offset st = real (k * n) \<and>
      (k + length acts) * n \<le> 2 ^ 53"
    then have m: "moves_only acts" and l: "st_limit st = real n"
      and o: "st_offset st = real (k * n)" and b: "(k + length acts) * n \<le> 2 ^ 53"
      by simp_all
    from page_run_moves[OF assms m l o b]
    obtain k' where "st_limit (page_run rnd st acts) = real n"
      and "st_offset (page_run rnd st acts) = real (k' * n)"
      by blast
    then show "st_limit (page_run rnd st acts) = st_limit st"
      and "multiple_of (st_limit (page_run rnd st acts)) (st_offset (page_run rnd st acts))"
      using multiple_of_nat[of n k'] l by simp_all
  }
qed

theorem pagination_offset_invariant_witness:
  "double_rounding (\<lambda>x. x) \<and>
   moves_only [Next, Next, Prev] \<and>
   st_offset (page_run (\<lambda>x. x) initial_state [Next, Next, Prev]) = 100 \<and>
   multiple_of (st_limit (page_run (\<lambda>x. x) initial_state [Next, Next, Prev]))
               (st_offset (page_run (\<lambda>x. x) initial_state [Next, Next, Prev])) \<and>
   0 \<le> st_offset (page_run (\<lambda>x. x) initial_state
                      [Prev, EditLimit 0, Next, EditLimit 2.5, Next, EditLimit 30, Prev]) \<and>
   1 \<le> st_limit (page_run (\<lambda>x. x) initial_state
                      [Prev, EditLimit 0, Next, EditLimit 2.5, Next, EditLimit 30, Prev])"
proof -
  have d: "double_rounding (\<lambda>x. x)"
    by (simp add: double_rounding_def)
  have m: "moves_only [Next, Next, Prev]"
    by (simp add: moves_only_def)
  have b: "length [Next, Next, Prev] * 100 \<le> (2::nat) ^ 53"
    by simp
  have 1: "st_offset (page_run (\<lambda>x. x) initial_state [Next, Next, Prev]) = 100"
    by (simp add: page_run_def initial_state_def)
  from pagination_offset_invariant[OF d, of "[Next, Next, Prev]"] m b
  have 2: "multiple_of (st_limit (page_run (\<lambda>x. x) initial_state [Next, Next, Prev]))
               (st_offset (page_run (\<lambda>x. x) initial_state [Next, Next, Prev]))"
    by blast
  from pagination_offset_invariant[OF d,
      of "[Prev, EditLimit 0, Next, EditLimit 2.5, Next, EditLimit 30, Prev]"]
  have 3: "0 \<le> st_offset (page_run (\<lambda>x. x) initial_state
                      [Prev, EditLimit 0, Next, EditLimit 2.5, Next, EditLimit 30, Prev])"
    and 4: "1 \<le> st_limit (page_run (\<lambda>x. x) initial_state
                      [Prev, EditLimit 0, Next, EditLimit 2.5, Next, EditLimit 30, Prev])"
    by blast+
  from d m 1 2 3 4 show ?thesis
    by (intro conjI)
qed

section \<open>Properties of the streaming export\<close>

lemma received_Nil: "received [] = []"
  by (simp add: received_def map_filter_simps)

lemma received_None: "received (None # vs) = received vs"
  by (simp add: received_def map_filter_simps)

lemma received_Some: "received (Some v # vs) = v # received vs"
  by (simp add: received_def map_filter_simps)

lemma read_loop_values:
  "read_loop dec (map Read_value vs @ r # rest) chunks lines evs =
   read_loop dec (r # rest) (chunks @ received vs)
     (lines + sum_list (map (line_count dec) (received vs)))
     (evs @ map Toast_progress (running_totals lines (map (line_count dec) (received vs))))"
proof (induction vs arbitrary: chunks lines evs)
  case Nil
  show ?case by (simp add: received_Nil)
next
  case (Cons v vs)
  show ?case
  proof (cases v)
    case None
    then show ?thesis by (simp add: Cons.IH received_None)
  next
    case (Some c)
    then show ?thesis by (simp add: Cons.IH received_Some add.assoc)
  qed
qed

text \<open>A stream whose reads all deliver values and never report the end keeps the loop running.\<close>

lemma read_loop_never_ends: "read_loop dec (map Read_value vs) chunks lines evs = None"
proof (induction vs arbitrary: chunks lines evs)
  case Nil
  show ?case by simp
next
  case (Cons v vs)
  then show ?case by (cases v) simp_all
qed

lemma onExport_done:
  assumes "tbl \<noteq> []"
  shows "onExport dec now (Some tbl) (Some q) (Stream_ok (map Read_value vs @ Read_done # rest)) =
     Some (Toast_started #
           map Toast_progress (running_totals 0 (map (line_count dec) (received vs))) @
           [Download \<lparr>file_name = tbl @ ''-'' @ decimal now @ ''.ndjson'',
                      mime_type = ''application/x-ndjson'',
                      content = concat (received vs)\<rparr>,
            Toast_complete (sum_list (map (line_count dec) (received vs)))])"
  using assms by (simp add: onExport_def read_loop_values)

lemma onExport_read_rejects:
  assumes "tbl \<noteq> []"
  shows "onExport dec now (Some tbl) (Some q) (Stream_ok (map Read_value vs @ Read_rejects e # rest)) =
     Some (Toast_started #
           map Toast_progress (running_totals 0 (map (line_count dec) (received vs))) @
           [Toast_failed e])"
  using assms by (simp add: onExport_def read_loop_values)

lemma onExport_request_fails:
  assumes "tbl \<noteq> []"
  shows "onExport dec now (Some tbl) (Some q) (Stream_fails e) = Some [Toast_failed e]"
  using assms by (simp add: onExport_def)

lemma byte_char_newline: "byte_char b = CHR 0x0A \<longleftrightarrow> b = 0x0A"
proof
  assume "byte_char b = CHR 0x0A"
  then have "of_char (byte_char b) = (of_char (CHR 0x0A) :: nat)"
    by simp
  then have "unat b mod 256 = 10"
    by (simp add: byte_char_def)
  moreover have "unat b < 256"
    using unsigned_less[of b, where ?'a = nat] by simp
  ultimately have "unat b = unat (10 :: 8 word)"
    by simp
  then show "b = 0x0A"
    by (simp only: word_unat_eq_iff)
next
  have "byte_char 0x0A = CHR 0x0A"
    by code_simp
  moreover assume "b = 0x0A"
  ultimately show "byte_char b = CHR 0x0A"
    by simp
qed

lemma split_on_sep: "d \<notin> set p \<Longrightarrow> split_on d (p @ d # s) = p # split_on d s"
  by (induction p) auto

lemma split_on_terminated:
  assumes "list_all ascii_record recs"
  shows "split_on CHR 0x0A (map byte_char (terminated recs)) = map (map byte_char) recs @ [[]]"
  using assms
proof (induction recs)
  case Nil
  then show ?case by (simp add: terminated_def)
next
  case (Cons r recs)
  then have r: "ascii_record r" and rest: "list_all ascii_record recs"
    by simp_all
  have "CHR 0x0A \<notin> set (map byte_char r)"
  proof
    assume "CHR 0x0A \<in> set (map byte_char r)"
    then obtain x where "x \<in> set r" and "byte_char x = CHR 0x0A"
      by auto
    then show False
      using r by (auto simp: ascii_record_def list_all_iff byte_char_newline)
  qed
  then have "split_on CHR 0x0A (map byte_char r @ CHR 0x0A # map byte_char (terminated recs)) =
      map byte_char r # split_on CHR 0x0A (map byte_char (terminated recs))"
    by (rule split_on_sep)
  moreover have "map byte_char (terminated (r # recs)) =
      map byte_char r @ CHR 0x0A # map byte_char (terminated recs)"
    by (simp add: terminated_def byte_char_newline)
  ultimately show ?case
    using Cons.IH[OF rest] by simp
qed

lemma terminated_ascii:
  assumes "list_all ascii_record recs"
  shows "list_all (\<lambda>b. b < 0x80) (terminated recs)"
  using assms by (induction recs) (auto simp: terminated_def ascii_record_def list_all_iff)

lemma line_count_terminated:
  assumes "ascii_decoder dec" and "list_all ascii_record recs"
  shows "line_count dec (terminated recs) = length recs"
proof -
  have "dec (terminated recs) = map byte_char (terminated recs)"
    using assms(1) terminated_ascii[OF assms(2)] by (simp add: ascii_decoder_def)
  moreover have "filter (\<lambda>s. s \<noteq> []) (map (map byte_char) recs) = map (map byte_char) recs"
    using assms(2) by (auto simp: filter_id_conv ascii_record_def list_all_iff)
  ultimately show ?thesis
    by (simp add: line_count_def split_on_terminated[OF assms(2)])
qed

text \<open>
  C3. When a table and a descriptor are present and the stream is read to completion
  (reads that deliver a chunk or no value, then the one that reports the end), the
  export shows "Export started", one progress update for each chunk, then offers one
  file and shows "Export complete". The file's content is exactly the chunks received,
  concatenated in the order of arrival; it does not depend on the decoder, whose text
  feeds the line counts only. The file is named by the table, a hyphen, the decimal
  digits of \<open>Date.now()\<close> and \<open>.ndjson\<close>, and its type is \<open>application/x-ndjson\<close>.
  The final count is the sum of the chunks' line counts; for three chunks made of two,
  one and zero newline-terminated records it is three.
\<close>

theorem export_completes:
  assumes "tbl \<noteq> []"
  shows
    "onExport dec now (Some tbl) (Some q) (Stream_ok (map Read_value vs @ Read_done # rest)) =
       Some (Toast_started #
             map Toast_progress (running_totals 0 (map (line_count dec) (received vs))) @
             [Download \<lparr>file_name = tbl @ ''-'' @ decimal now @ ''.ndjson'',
                        mime_type = ''application/x-ndjson'',
                        content = concat (received vs)\<rparr>,
              Toast_complete (sum_list (map (line_count dec) (received vs)))]) \<and>
     (ascii_decoder dec \<and> list_all ascii_record (rs1 @ rs2) \<and> length rs1 = 2 \<and> length rs2 = 1 \<longrightarrow>
        onExport dec now (Some tbl) (Some q)
          (Stream_ok [Read_value (Some (terminated rs1)), Read_value (Some (terminated rs2)),
                      Read_value (Some (terminated [])), Read_done]) =
          Some [Toast_started, Toast_progress 2, Toast_progress 3, Toast_progress 3,
                Download \<lparr>file_name = tbl @ ''-'' @ decimal now @ ''.ndjson'',
                           mime_type = ''application/x-ndjson'',
                           content = terminated rs1 @ terminated rs2 @ terminated []\<rparr>,
                Toast_complete 3])"
proof (intro conjI impI)
  show "onExport dec now (Some tbl) (Some q) (Stream_ok (map Read_value vs @ Read_done # rest)) =
       Some (Toast_started #
             map Toast_progress (running_totals 0 (map (line_count dec) (received vs))) @
             [Download \<lparr>file_name = tbl @ ''-'' @ decimal now @ ''.ndjson'',
                        mime_type = ''application/x-ndjson'',
                        content = concat (received vs)\<rparr>,
              Toast_complete (sum_list (map (line_count dec) (received vs)))])"
    using assms by (rule onExport_done)
next
  assume h: "ascii_decoder dec \<and> list_all ascii_record (rs1 @ rs2) \<and> length rs1 = 2 \<and> length rs2 = 1"
  then have d: "ascii_decoder dec" and r1: "list_all ascii_record rs1"
    and r2: "list_all ascii_record rs2" and r3: "list_all ascii_record []"
    by simp_all
  have c1: "line_count dec (terminated rs1) = 2"
    using line_count_terminated[OF d r1] h by simp
  have c2: "line_count dec (terminated rs2) = 1"
    using line_count_terminated[OF d r2] h by simp
  have c3: "line_count dec (terminated []) = 0"
    using line_count_terminated[OF d r3] by simp
  have "onExport dec now (Some tbl) (Some q)
          (Stream_ok (map Read_value [Some (terminated rs1), Some (terminated rs2),
                        Some (terminated [])] @ Read_done # [])) =
       Some (Toast_started #
             map Toast_progress (running_totals 0 (map (line_count dec)
               (received [Some (terminated rs1), Some (terminated rs2), Some (terminated [])]))) @
             [Download \<lparr>file_name = tbl @ ''-'' @ decimal now @ ''.ndjson'',
                        mime_type = ''application/x-ndjson'',
                        content = concat (received
                          [Some (terminated rs1), Some (terminated rs2), Some (terminated [])])\<rparr>,
              Toast_complete (sum_list (map (line_count dec) (received
                [Some (terminated rs1), Some (terminated rs2), Some (terminated [])])))])"
    using assms by (rule onExport_done)
  then show "onExport dec now (Some tbl) (Some q)
          (Stream_ok [Read_value (Some (terminated rs1)), Read_value (Some (terminated rs2)),
                      Read_value (Some (terminated [])), Read_done]) =
          Some [Toast_started, Toast_progress 2, Toast_progress 3, Toast_progress 3,
                Download \<lparr>file_name = tbl @ ''-'' @ decimal now @ ''.ndjson'',
                           mime_type = ''application/x-ndjson'',
                           content = terminated rs1 @ terminated rs2 @ terminated []\<rparr>,
                Toast_complete 3]"
    by (simp add: received_Some received_Nil c1 c2 c3)
qed

theorem export_completes_witness:
  "onExport (map byte_char) 1700000000123 (Some ''orders'')
     (Some \<lparr>filters = [], logical_operator = AND, order_by = None, limit = 100, offset = 0,
            qb_fields = None\<rparr>)
     (Stream_ok [Read_value (Some [0x7B, 0x7D, 0x0A, 0x7B, 0x7D, 0x0A]),
                 Read_value (Some [0x7B, 0x7D, 0x0A]), Read_value (Some []), Read_done]) =
   Some [Toast_started, Toast_progress 2, Toast_progress 3, Toast_progress 3,
         Download \<lparr>file_name = ''orders-1700000000123.ndjson'',
                    mime_type = ''application/x-ndjson'',
                    content = [0x7B, 0x7D, 0x0A, 0x7B, 0x7D, 0x0A, 0x7B, 0x7D, 0x0A]\<rparr>,
         Toast_complete 3] \<and>
   onExport (\<lambda>v. []) 5 (Some ''t'')
     (Some \<lparr>filters = [], logical_operator = AND, order_by = None, limit = 100, offset = 0,
            qb_fields = None\<rparr>)
     (Stream_ok [Read_value (Some [0xFF, 0x0A]), Read_value None, Read_value (Some [0x00]),
                 Read_done, Read_value (Some [0x01])]) =
   Some [Toast_started, Toast_progress 0, Toast_progress 0,
         Download \<lparr>file_name = ''t-5.ndjson'', mime_type = ''application/x-ndjson'',
                    content = [0xFF, 0x0A, 0x00]\<rparr>,
         Toast_complete 0]"
proof -
  have t: "''orders'' \<noteq> []" "''t'' \<noteq> []"
    by simp_all
  have d: "ascii_decoder (map byte_char)"
    by (simp add: ascii_decoder_def)
  have r: "list_all ascii_record ([[0x7B, 0x7D], [0x7B, 0x7D]] @ [[0x7B, 0x7D]])"
    by (simp add: ascii_record_def)
  have tm: "terminated [[0x7B, 0x7D], [0x7B, 0x7D]] = [0x7B, 0x7D, 0x0A, 0x7B, 0x7D, 0x0A]"
    "terminated [[0x7B, 0x7D]] = [0x7B, 0x7D, 0x0A]" "terminated [] = []"
    by (simp_all add: terminated_def)
  have n: "decimal 1700000000123 = ''1700000000123''" "decimal 5 = ''5''"
    by (simp_all add: decimal.simps)
  have 1: "onExport (map byte_char) 1700000000123 (Some ''orders'')
     (Some \<lparr>filters = [], logical_operator = AND, order_by = None, limit = 100, offset = 0,
            qb_fields = None\<rparr>)
     (Stream_ok [Read_value (Some [0x7B, 0x7D, 0x0A, 0x7B, 0x7D, 0x0A]),
                 Read_value (Some [0x7B, 0x7D, 0x0A]), Read_value (Some []), Read_done]) =
   Some [Toast_started, Toast_progress 2, Toast_progress 3, Toast_progress 3,
         Download \<lparr>file_name = ''orders-1700000000123.ndjson'',
                    mime_type = ''application/x-ndjson'',
                    content = [0x7B, 0x7D, 0x0A, 0x7B, 0x7D, 0x0A, 0x7B, 0x7D, 0x0A]\<rparr>,
         Toast_complete 3]"
    using export_completes[OF t(1), THEN conjunct2, rule_format,
        of "map byte_char" "[[0x7B, 0x7D], [0x7B, 0x7D]]" "[[0x7B, 0x7D]]" 1700000000123] d r
    by (simp add: tm n)
  have lc: "line_count (\<lambda>v. []) v = 0" for v :: chunk
    by (simp add: line_count_def)
  have 2: "onExport (\<lambda>v. []) 5 (Some ''t'')
     (Some \<lparr>filters = [], logical_operator = AND, order_by = None, limit = 100, offset = 0,
            qb_fields = None\<rparr>)
     (Stream_ok [Read_value (Some [0xFF, 0x0A]), Read_value None, Read_value (Some [0x00]),
                 Read_done, Read_value (Some [0x01])]) =
   Some [Toast_started, Toast_progress 0, Toast_progress 0,
         Download \<lparr>file_name = ''t-5.ndjson'', mime_type = ''application/x-ndjson'',
                    content = [0xFF, 0x0A, 0x00]\<rparr>,
         Toast_complete 0]"
    using export_completes[OF t(2), THEN conjunct1,
        of "\<lambda>v. []" 5 _ "[Some [0xFF, 0x0A], None, Some [0x00]]" "[Read_value (Some [0x01])]"]
    by (simp add: received_Some received_None received_Nil lc n)
  from 1 2 show ?thesis
    by (intro conjI)
qed

text \<open>
  C8. When a table and a descriptor are present and the stream request fails, the only
  thing shown is "Export failed" with the error's message. When a read fails after any
  number of successful reads, the export shows "Export started", the progress updates of
  the chunks read so far, and then "Export failed"; the chunks read are dropped. In both
  cases the export ends, no file is offered, not even a partial one, and the last thing
  shown is the failure. An export shows toasts and offers a file and does nothing else:
  it has no effect on the query state or on the result the query view shows.
\<close>

theorem export_failure_atomic:
  assumes "tbl \<noteq> []"
  shows
    "onExport dec now (Some tbl) (Some q) (Stream_fails e) = Some [Toast_failed e] \<and>
     onExport dec now (Some tbl) (Some q)
        (Stream_ok (map Read_value vs @ Read_rejects e # rest)) =
       Some (Toast_started #
             map Toast_progress (running_totals 0 (map (line_count dec) (received vs))) @
             [Toast_failed e]) \<and>
     (\<forall>req. req = Stream_fails e \<or> req = Stream_ok (map Read_value vs @ Read_rejects e # rest) \<longrightarrow>
        (\<exists>evs. onExport dec now (Some tbl) (Some q) req = Some evs \<and>
               last evs = Toast_failed e \<and> (\<forall>d. Download d \<notin> set evs)))"
proof (intro conjI allI impI)
  show 1: "onExport dec now (Some tbl) (Some q) (Stream_fails e) = Some [Toast_failed e]"
    using assms by (rule onExport_request_fails)
  show 2: "onExport dec now (Some tbl) (Some q)
        (Stream_ok (map Read_value vs @ Read_rejects e # rest)) =
       Some (Toast_started #
             map Toast_progress (running_totals 0 (map (line_count dec) (received vs))) @
             [Toast_failed e])"
    using assms by (rule onExport_read_rejects)
  fix req
  assume "req = Stream_fails e \<or> req = Stream_ok (map Read_value vs @ Read_rejects e # rest)"
  then show "\<exists>evs. onExport dec now (Some tbl) (Some q) req = Some evs \<and>
               last evs = Toast_failed e \<and> (\<forall>d. Download d \<notin> set evs)"
  proof
    assume "req = Stream_fails e"
    with 1 show ?thesis by simp
  next
    assume "req = Stream_ok (map Read_value vs @ Read_rejects e # rest)"
    with 2 show ?thesis by auto
  qed
qed

theorem export_failure_atomic_witness:
  "onExport (map byte_char) 1700000000123 (Some ''orders'')
     (Some \<lparr>filters = [], logical_operator = AND, order_by = None, limit = 100, offset = 0,
            qb_fields = None\<rparr>)
     (Stream_fails (Some ''Stream failed (500)'')) =
   Some [Toast_failed (Some ''Stream failed (500)'')] \<and>
   onExport (\<lambda>v. []) 1700000000123 (Some ''orders'')
     (Some \<lparr>filters = [], logical_operator = AND, order_by = None, limit = 100, offset = 0,
            qb_fields = None\<rparr>)
     (Stream_ok [Read_value (Some [0x7B, 0x7D, 0x0A]), Read_rejects None, Read_done]) =
   Some [Toast_started, Toast_progress 0, Toast_failed None]"
proof -
  have t: "''orders'' \<noteq> []"
    by simp
  have lc: "line_count (\<lambda>v. []) v = 0" for v :: chunk
    by (simp add: line_count_def)
  have 1: "onExport (map byte_char) 1700000000123 (Some ''orders'')
     (Some \<lparr>filters = [], logical_operator = AND, order_by = None, limit = 100, offset = 0,
            qb_fields = None\<rparr>)
     (Stream_fails (Some ''Stream failed (500)'')) =
   Some [Toast_failed (Some ''Stream failed (500)'')]"
    using export_failure_atomic[OF t, THEN conjunct1] by simp
  have 2: "onExport (\<lambda>v. []) 1700000000123 (Some ''orders'')
     (Some \<lparr>filters = [], logical_operator = AND, order_by = None, limit = 100, offset = 0,
            qb_fields = None\<rparr>)
     (Stream_ok [Read_value (Some [0x7B, 0x7D, 0x0A]), Read_rejects None, Read_done]) =
   Some [Toast_started, Toast_progress 0, Toast_failed None]"
    using export_failure_atomic[OF t, THEN conjunct2, THEN conjunct1,
        of "\<lambda>v. []" 1700000000123 _ "[Some [0x7B, 0x7D, 0x0A]]" None "[Read_done]"]
    by (simp add: received_Some received_Nil lc)
  from 1 2 show ?thesis
    by (intro conjI)
qed

section \<open>Properties of the column width estimate\<close>

lemma foldl_nth_take:
  "k \<le> length xs \<Longrightarrow> foldl (\<lambda>m i. g m (xs ! i)) a [0..<k] = foldl g a (take k xs)"
proof (induction k)
  case 0
  then show ?case by simp
next
  case (Suc k)
  then have "k < length xs" by simp
  then have "take (Suc k) xs = take k xs @ [xs ! k]"
    by (rule take_Suc_conv_app_nth)
  with Suc show ?case by simp
qed

lemma foldl_longest:
  "foldl (\<lambda>m r. let len = f r in if len > m then len else m) (a::nat) xs =
   Max (insert a (f ` set xs))"
proof (induction xs arbitrary: a)
  case Nil
  then show ?case by simp
next
  case (Cons x xs)
  have "Max (insert (max a (f x)) (f ` set xs)) = Max (insert a (insert (f x) (f ` set xs)))"
    by (cases "set xs = {}") (simp_all add: max.assoc)
  moreover have "(if a < f x then f x else a) = max a (f x)"
    by (simp add: max_def)
  ultimately show ?case
    using Cons.IH[of "max a (f x)"] by (simp add: Let_def insert_commute)
qed

lemma maxLen_eq:
  "maxLen str rows c = Max (insert (length c) ((\<lambda>r. cell_len str r c) ` set (take 100 rows)))"
proof -
  have k: "sampleCount rows \<le> length rows"
    by (simp add: sampleCount_def)
  have t: "take (sampleCount rows) rows = take 100 rows"
    by (simp add: sampleCount_def min_def)
  have "maxLen str rows c =
      foldl (\<lambda>m r. let len = cell_len str r c in if len > m then len else m) (length c)
        (take (sampleCount rows) rows)"
    unfolding maxLen_def using foldl_nth_take[OF k] by fast
  then show ?thesis
    by (simp only: t foldl_longest)
qed

lemma maxLen_take: "maxLen str (take 100 rows) c = maxLen str rows c"
  by (simp add: maxLen_eq)

lemma column_width_bounds: "140 \<le> column_width damp len \<and> column_width damp len \<le> 420"
proof -
  define x where "x = min max_width (max min_width (damp (len * charPx)))"
  have lo: "140 \<le> x" and hi: "x \<le> 420"
    by (simp_all add: x_def min_width_def max_width_def)
  from round_mono[OF lo] round_mono[OF hi] show ?thesis
    by (simp add: column_width_def x_def)
qed

lemma damp_upper:
  assumes "damp_spec damp"
  shows "damp n \<le> 8 * real n / 10"
proof -
  have "\<bar>damp n - 7 * real n / 10\<bar> \<le> real n / 2 ^ 50"
    using assms by (simp add: damp_spec_def)
  moreover have "real n / 2 ^ 50 \<le> real n / 10"
    by (rule divide_left_mono) simp_all
  ultimately show ?thesis
    by linarith
qed

lemma column_width_min:
  assumes "damp_spec damp" and "len \<le> 17"
  shows "column_width damp len = 140"
proof -
  have "real (len * charPx) \<le> 136"
    using assms(2) by (simp add: charPx_def)
  with damp_upper[OF assms(1), of "len * charPx"] have "damp (len * charPx) \<le> 140"
    by linarith
  then have "min max_width (max min_width (damp (len * charPx))) = 140"
    by (simp add: min_width_def max_width_def max_def min_def)
  then show ?thesis
    by (simp add: column_width_def)
qed

lemma column_width_max:
  assumes "420 < damp (len * charPx)"
  shows "column_width damp len = 420"
proof -
  from assms have "min max_width (max min_width (damp (len * charPx))) = 420"
    by (simp add: min_width_def max_width_def max_def min_def)
  then show ?thesis
    by (simp add: column_width_def)
qed

text \<open>
  C7. Whatever the rows are, there is one width for each column, and the widths are those
  of the first 100 rows alone. A column's width is the longest of the header's length
  and the lengths of the stringified values of that column in the first 100 rows,
  multiplied by the 8 pixels of a character and damped by 0.7, clamped to the range from
  140 to 420 and rounded to an integer; it lies between 140 and 420. A column with the
  header \<open>id\<close> whose sampled values are all shorter than 17.5 characters has width 140,
  and a column whose damped estimate is above 420 has width 420.
\<close>

theorem column_width_estimate:
  assumes "damp_spec damp" and "j < length columns"
  shows
    "length (useColumnWidths damp str columns rows) = length columns \<and>
     useColumnWidths damp str columns rows = useColumnWidths damp str columns (take 100 rows) \<and>
     maxLen str rows (columns ! j) =
       Max (insert (length (columns ! j))
                   ((\<lambda>r. cell_len str r (columns ! j)) ` set (take 100 rows))) \<and>
     useColumnWidths damp str columns rows ! j =
       round (min 420 (max 140 (damp (maxLen str rows (columns ! j) * 8)))) \<and>
     140 \<le> useColumnWidths damp str columns rows ! j \<and>
     useColumnWidths damp str columns rows ! j \<le> 420 \<and>
     (columns ! j = ''id'' \<and>
      (\<forall>r \<in> set (take 100 rows). real (cell_len str r (columns ! j)) < 17.5) \<longrightarrow>
        useColumnWidths damp str columns rows ! j = 140) \<and>
     (420 < damp (maxLen str rows (columns ! j) * 8) \<longrightarrow>
        useColumnWidths damp str columns rows ! j = 420)"
proof (intro conjI impI)
  let ?c = "columns ! j"
  have w: "useColumnWidths damp str columns rows ! j = column_width damp (maxLen str rows ?c)"
    using assms(2) by (simp add: useColumnWidths_def)
  show "length (useColumnWidths damp str columns rows) = length columns"
    by (simp add: useColumnWidths_def)
  show "useColumnWidths damp str columns rows = useColumnWidths damp str columns (take 100 rows)"
    by (simp add: useColumnWidths_def maxLen_take)
  show "maxLen str rows ?c =
       Max (insert (length ?c) ((\<lambda>r. cell_len str r ?c) ` set (take 100 rows)))"
    by (rule maxLen_eq)
  show "useColumnWidths damp str columns rows ! j =
       round (min 420 (max 140 (damp (maxLen str rows ?c * 8))))"
    by (simp add: w column_width_def charPx_def min_width_def max_width_def)
  show "140 \<le> useColumnWidths damp str columns rows ! j"
    and "useColumnWidths damp str columns rows ! j \<le> 420"
    using column_width_bounds[of damp "maxLen str rows ?c"] by (simp_all add: w)
  {
    assume h: "?c = ''id'' \<and>
      (\<forall>r \<in> set (take 100 rows). real (cell_len str r ?c) < 17.5)"
    have "cell_len str r ?c \<le> 17" if "r \<in> set (take 100 rows)" for r
    proof -
      from h that have "real (cell_len str r ?c) < 18"
        by fastforce
      then show ?thesis
        by simp
    qed
    moreover have "length ?c \<le> 17"
      using h by simp
    ultimately have "maxLen str rows ?c \<le> 17"
      by (simp add: maxLen_eq)
    with assms(1) show "useColumnWidths damp str columns rows ! j = 140"
      by (simp add: w column_width_min)
  }
  {
    assume "420 < damp (maxLen str rows ?c * 8)"
    then show "useColumnWidths damp str columns rows ! j = 420"
      by (simp add: w column_width_max charPx_def)
  }
qed

theorem column_width_estimate_witness:
  "useColumnWidths (\<lambda>n. 7 * real n / 10) (\<lambda>s. s) [''id'', ''note'']
     [Some [''id'' \<mapsto> ''1'', ''note'' \<mapsto> replicate 80 CHR ''x''], None,
      Some [''id'' \<mapsto> ''12345'']] ! 0 = 140 \<and>
   useColumnWidths (\<lambda>n. 7 * real n / 10) (\<lambda>s. s) [''id'', ''note'']
     [Some [''id'' \<mapsto> ''1'', ''note'' \<mapsto> replicate 80 CHR ''x''], None,
      Some [''id'' \<mapsto> ''12345'']] ! 1 = 420"
proof -
  define rows :: "string row list" where "rows =
     [Some [''id'' \<mapsto> ''1'', ''note'' \<mapsto> replicate 80 CHR ''x''], None,
      Some [''id'' \<mapsto> ''12345'']]"
  have d: "damp_spec (\<lambda>n. 7 * real n / 10)"
    by (simp add: damp_spec_def)
  have j: "0 < length [''id'', ''note'']" "1 < length [''id'', ''note'']"
    by simp_all
  have tk: "take 100 rows = rows"
    by (simp add: rows_def)
  have s: "\<forall>r \<in> set (take 100 rows). real (cell_len (\<lambda>s. s) r ([''id'', ''note''] ! 0)) < 17.5"
    by (simp add: tk) (simp add: rows_def cell_len_def cell_def)
  have m: "maxLen (\<lambda>s. s) rows ''note'' = 80"
    by (simp add: maxLen_def sampleCount_def rows_def cell_len_def cell_def upt_rec)
  have 1: "useColumnWidths (\<lambda>n. 7 * real n / 10) (\<lambda>s. s) [''id'', ''note''] rows ! 0 = 140"
  proof -
    from column_width_estimate[OF d j(1), of "\<lambda>s. s" rows]
    have "[''id'', ''note''] ! 0 = ''id'' \<and>
        (\<forall>r \<in> set (take 100 rows). real (cell_len (\<lambda>s. s) r ([''id'', ''note''] ! 0)) < 17.5) \<longrightarrow>
        useColumnWidths (\<lambda>n. 7 * real n / 10) (\<lambda>s. s) [''id'', ''note''] rows ! 0 = 140"
      by (elim conjE)
    moreover have "[''id'', ''note''] ! 0 = ''id''"
      by simp
    ultimately show ?thesis
      using s by blast
  qed
  have 2: "useColumnWidths (\<lambda>n. 7 * real n / 10) (\<lambda>s. s) [''id'', ''note''] rows ! 1 = 420"
  proof -
    from column_width_estimate[OF d j(2), of "\<lambda>s. s" rows]
    have "420 < (\<lambda>n. 7 * real n / 10) (maxLen (\<lambda>s. s) rows ([''id'', ''note''] ! 1) * 8) \<longrightarrow>
        useColumnWidths (\<lambda>n. 7 * real n / 10) (\<lambda>s. s) [''id'', ''note''] rows ! 1 = 420"
      by (elim conjE)
    moreover have "420 < (\<lambda>n. 7 * real n / 10) (maxLen (\<lambda>s. s) rows ([''id'', ''note''] ! 1) * 8)"
      by (simp add: m)
    ultimately show ?thesis
      by blast
  qed
  from 1 2 show ?thesis
    unfolding rows_def by (intro conjI)
qed

section \<open>Properties of debounced execution\<close>

text \<open>At most one timer is armed, and it is the one the ref names.\<close>

lemma debounce_run_armed:
  assumes "armed s = [(i, t + delay, args)]" and "ref_current s = Some i" and "i \<noteq> 0"
    and "next_id s \<noteq> 0"
  shows "debounce_run delay s calls = quiet_calls delay ((t, args) # calls)"
  using assms
proof (induction calls arbitrary: s i t args)
  case Nil
  then show ?case by simp
next
  case (Cons c calls)
  obtain t' args' where c: "c = (t', args')"
    by (cases c) auto
  define s' where "s' = debounced delay t' args' (fire t' s)"
  have cleared: "armed (clearTimeout i (fire t' s)) = []"
    using Cons.prems(1) by (simp add: clearTimeout_def fire_def)
  have a: "armed s' = [(next_id s, t' + delay, args')]"
    using Cons.prems(1,2,3) by (simp add: s'_def debounced_def Let_def clearTimeout_def fire_def)
  have r: "ref_current s' = Some (next_id s)"
    using Cons.prems(2,3) by (simp add: s'_def debounced_def Let_def clearTimeout_def fire_def)
  have n: "next_id s' \<noteq> 0"
    using Cons.prems(2,3) by (simp add: s'_def debounced_def Let_def clearTimeout_def fire_def)
  have d: "due t' s = (if t + delay \<le> t' then [(t + delay, args)] else [])"
    using Cons.prems(1) by (simp add: due_def)
  from Cons.IH[OF a r Cons.prems(4) n]
  have "debounce_run delay s' calls = quiet_calls delay ((t', args') # calls)" .
  then show ?case
    by (simp add: c d s'_def)
qed

lemma debounce_run_fresh: "debounce_run delay fresh calls = quiet_calls delay calls"
proof (cases calls)
  case Nil
  then show ?thesis by (simp add: fresh_def)
next
  case (Cons c cs)
  obtain t args where c: "c = (t, args)"
    by (cases c) auto
  define s where "s = debounced delay t args (fire t (fresh :: 'a debouncer))"
  have "armed s = [(1, t + delay, args)]" and "ref_current s = Some 1" and "next_id s \<noteq> 0"
    by (simp_all add: s_def debounced_def fire_def fresh_def Let_def)
  from debounce_run_armed[OF this(1,2) _ this(3), of cs]
  have "debounce_run delay s cs = quiet_calls delay ((t, args) # cs)"
    by simp
  then show ?thesis
    by (simp add: Cons c s_def due_def fresh_def)
qed

lemma quiet_calls_burst:
  assumes "calls \<noteq> []" and "in_window delay (map fst calls)"
  shows "quiet_calls delay calls = [(fst (last calls) + delay, snd (last calls))]"
  using assms
proof (induction delay calls rule: quiet_calls.induct)
  case (1 delay)
  then show ?case by simp
next
  case (2 delay t args)
  then show ?case by simp
next
  case (3 delay t args t' args' calls)
  then show ?case by simp
qed

lemma component_run_clicks:
  "component_run fetches delay cur s (map (\<lambda>t. (t, Run)) ts) =
   map (\<lambda>(deadline, args). (deadline, Refetch, cur))
       (debounce_run delay s (map (\<lambda>t. (t, ())) ts))"
proof (induction ts arbitrary: s)
  case Nil
  show ?case by (simp add: case_prod_unfold)
next
  case (Cons t ts)
  show ?case by (simp add: Cons.IH)
qed

lemma component_run_changes:
  assumes "armed s = []"
  shows "component_run fetches delay cur s (map (\<lambda>(t, d). (t, Change d)) cs) =
         key_change_requests fetches cur cs"
  using assms
proof (induction cs arbitrary: cur s)
  case Nil
  then show ?case by simp
next
  case (Cons c cs)
  obtain t d where c: "c = (t, d)"
    by (cases c) auto
  have "armed (fire t s) = []"
    using Cons.prems by (simp add: fire_def)
  from Cons.IH[OF this] Cons.prems show ?case
    by (simp add: c due_def)
qed

text \<open>
  C5, as the specification states it, fails: descriptor changes do not pass through the
  debounced callback. With the rule of \<open>useQuery\<close>, two changes of the descriptor 28 ms
  apart (offset 0 to 100, then to 200) issue two requests inside one window of 300 ms,
  the first of them for a descriptor that is not the most recent one.
\<close>

theorem debounce_descriptor_changes_counterexample:
  "component_run useQuery_fetches 300
     \<lparr>filters = [], logical_operator = AND, order_by = None, limit = 100, offset = 0,
      qb_fields = None\<rparr>
     fresh
     [(0, Change \<lparr>filters = [], logical_operator = AND, order_by = None, limit = 100,
                  offset = 100, qb_fields = None\<rparr>),
      (28, Change \<lparr>filters = [], logical_operator = AND, order_by = None, limit = 100,
                   offset = 200, qb_fields = None\<rparr>)] =
   [(0, Key_change, \<lparr>filters = [], logical_operator = AND, order_by = None, limit = 100,
                     offset = 100, qb_fields = None\<rparr>),
    (28, Key_change, \<lparr>filters = [], logical_operator = AND, order_by = None, limit = 100,
                      offset = 200, qb_fields = None\<rparr>)]"
  by (simp add: useQuery_fetches_def due_def fire_def fresh_def)

text \<open>
  C5 (amended). Debouncing applies to the calls of the debounced callback, which the
  query view makes on Run Query only. A call arms a timer of the delay and clears the
  one armed before it, so a call is answered, one delay later and with its own
  arguments, exactly when no other call follows it within the delay; a burst of calls,
  each less than one delay after the one before, is answered once, one delay after the
  last call and with the last call's arguments. For the query view: a burst of Run Query
  clicks issues exactly one refetch, one delay after the last click; the refetch is for
  the descriptor current when the timer fires, so a descriptor change between two clicks
  of a burst is the one refetched. Descriptor changes are not debounced: each change is
  handed to \<open>useQuery\<close> at once, which issues its request at that time by its own rule.
\<close>

theorem debounce_coalesces_run_query:
  "debounce_run delay fresh calls = quiet_calls delay calls \<and>
   (calls \<noteq> [] \<and> in_window delay (map fst calls) \<longrightarrow>
      debounce_run delay fresh calls = [(fst (last calls) + delay, snd (last calls))]) \<and>
   (ts \<noteq> [] \<and> in_window delay ts \<longrightarrow>
      component_run fetches delay cur fresh (map (\<lambda>t. (t, Run)) ts) =
        [(last ts + delay, Refetch, cur)]) \<and>
   (in_window delay [t1, t2, t3] \<and> t3 < t1 + delay \<longrightarrow>
      component_run fetches delay cur fresh [(t1, Run), (t2, Change d), (t3, Run)] =
        (if fetches cur d then [(t2, Key_change, d)] else []) @ [(t3 + delay, Refetch, d)]) \<and>
   component_run fetches delay cur fresh (map (\<lambda>(t, d). (t, Change d)) cs) =
     key_change_requests fetches cur cs"
proof (intro conjI impI)
  show "debounce_run delay fresh calls = quiet_calls delay calls"
    by (rule debounce_run_fresh)
next
  assume "calls \<noteq> [] \<and> in_window delay (map fst calls)"
  then show "debounce_run delay fresh calls = [(fst (last calls) + delay, snd (last calls))]"
    by (simp add: debounce_run_fresh quiet_calls_burst)
next
  assume h: "ts \<noteq> [] \<and> in_window delay ts"
  define calls :: "(time \<times> unit) list" where "calls = map (\<lambda>t. (t, ())) ts"
  have "map fst calls = ts"
    by (simp add: calls_def comp_def)
  with h have "calls \<noteq> []" and "in_window delay (map fst calls)"
    by (auto simp: calls_def)
  then have "quiet_calls delay calls = [(fst (last calls) + delay, snd (last calls))]"
    by (rule quiet_calls_burst)
  moreover have "fst (last calls) = last ts"
    using h by (simp add: calls_def last_map)
  ultimately have "debounce_run delay fresh calls = [(last ts + delay, ())]"
    by (simp add: debounce_run_fresh)
  then show "component_run fetches delay cur fresh (map (\<lambda>t. (t, Run)) ts) =
        [(last ts + delay, Refetch, cur)]"
    by (simp add: component_run_clicks calls_def)
next
  assume "in_window delay [t1, t2, t3] \<and> t3 < t1 + delay"
  then show "component_run fetches delay cur fresh [(t1, Run), (t2, Change d), (t3, Run)] =
        (if fetches cur d then [(t2, Key_change, d)] else []) @ [(t3 + delay, Refetch, d)]"
    by (simp add: due_def fire_def fresh_def debounced_def clearTimeout_def Let_def)
next
  show "component_run fetches delay cur fresh (map (\<lambda>(t, d). (t, Change d)) cs) =
     key_change_requests fetches cur cs"
    by (rule component_run_changes) (simp add: fresh_def)
qed

theorem debounce_coalesces_run_query_witness:
  "debounce_run 300 fresh [(0, ''a''), (100, ''b''), (250, ''c'')] = [(550, ''c'')] \<and>
   component_run useQuery_fetches 300
     \<lparr>filters = [], logical_operator = AND, order_by = None, limit = 100, offset = 0,
      qb_fields = None\<rparr>
     fresh [(0, Run), (100, Run), (250, Run)] =
   [(550, Refetch,
     \<lparr>filters = [], logical_operator = AND, order_by = None, limit = 100, offset = 0,
      qb_fields = None\<rparr>)] \<and>
   component_run useQuery_fetches 300
     \<lparr>filters = [], logical_operator = AND, order_by = None, limit = 100, offset = 0,
      qb_fields = None\<rparr>
     fresh
     [(0, Run),
      (28, Change \<lparr>filters = [], logical_operator = AND, order_by = None, limit = 100,
                   offset = 100, qb_fields = None\<rparr>),
      (40, Run)] =
   [(28, Key_change, \<lparr>filters = [], logical_operator = AND, order_by = None, limit = 100,
                      offset = 100, qb_fields = None\<rparr>),
    (340, Refetch, \<lparr>filters = [], logical_operator = AND, order_by = None, limit = 100,
                    offset = 100, qb_fields = None\<rparr>)]"
proof -
  define q0 where "q0 = \<lparr>filters = [], logical_operator = AND, order_by = None,
    limit = 100, offset = 0, qb_fields = None\<rparr>"
  define q1 where "q1 = \<lparr>filters = [], logical_operator = AND, order_by = None,
    limit = 100, offset = 100, qb_fields = None\<rparr>"
  have w: "in_window 300 [0, 100, 250]" "in_window 300 [0, 28, 40]"
    by simp_all
  have 1: "debounce_run 300 fresh [(0, ''a''), (100, ''b''), (250, ''c'')] = [(550, ''c'')]"
    using debounce_coalesces_run_query[where delay = 300
        and calls = "[(0, ''a''), (100, ''b''), (250, ''c'')]",
        THEN conjunct2, THEN conjunct1] w(1)
    by simp
  have 2: "component_run useQuery_fetches 300 q0 fresh [(0, Run), (100, Run), (250, Run)] =
      [(550, Refetch, q0)]"
    using debounce_coalesces_run_query[where delay = 300 and ts = "[0, 100, 250]"
        and fetches = useQuery_fetches and cur = q0,
        THEN conjunct2, THEN conjunct2, THEN conjunct1] w(1)
    by simp
  have ne: "useQuery_fetches q0 q1"
    by (simp add: useQuery_fetches_def q0_def q1_def)
  have 3: "component_run useQuery_fetches 300 q0 fresh [(0, Run), (28, Change q1), (40, Run)] =
      [(28, Key_change, q1), (340, Refetch, q1)]"
    using debounce_coalesces_run_query[where delay = 300 and ?t1.0 = 0 and ?t2.0 = 28
        and ?t3.0 = 40 and fetches = useQuery_fetches and cur = q0 and d = q1,
        THEN conjunct2, THEN conjunct2, THEN conjunct2, THEN conjunct1] w(2) ne
    by simp
  from 1 2 3 show ?thesis
    unfolding q0_def q1_def by (intro conjI)
qed

end
